theory Spec2Isabelle
  imports Main
begin

section \<open>Data model\<close>

text \<open>
  The activity stack of the framework (class \<open>ActivityStack\<close>) is embedded with explicit
  state passing. Activities are JavaScript objects compared by reference (\<open>===\<close>), so an
  activity is an address \<open>aref\<close> and its fields live in a heap \<open>aref \<Rightarrow> activity\<close>; a
  class (the right operand of \<open>instanceof\<close>) is a \<open>cref\<close>. The class \<open>Activity\<close> itself
  and the signal and promise library are imported by the source, not part of it: the
  fields the stack reads are the record \<open>activity\<close>, the class factory
  \<open>parent.getInstance()\<close> and the outcome of the awaited signal handlers are the
  parameters \<open>getInstance\<close> and \<open>handlers\<close> of the environment.
\<close>

type_synonym aref = nat
type_synonym cref = nat

datatype parent = ParentInstance aref | ParentClass cref

record activity_options =
  parentActivity :: "parent option"
  isRootActivity :: bool
  isHubActivity :: bool
  isTransient :: bool
  isBackgroundActivity :: bool

text \<open>
  \<open>classes a\<close> lists the classes \<open>a\<close> is an \<open>instanceof\<close>; \<open>title\<close> is \<open>None\<close> for
  \<open>undefined\<close>; \<open>getPath\<close> is what \<open>activation.getPath()\<close> returns, \<open>None\<close> when it throws
  (the source catches that and leaves \<open>path\<close> undefined).
\<close>

record activity =
  classes :: "cref list"
  title :: "string option"
  options :: activity_options
  getPath :: "string option"

datatype operation = Push | Replace | Pop

text \<open>
  The errors a returned promise can be rejected with: the two \<open>Error\<close>s the source
  throws, the \<open>TypeError\<close> of a property read on \<open>undefined\<close>, and the reason a signal
  handler rejected with. \<open>IllTyped\<close> stands for a call the TypeScript signature excludes
  (\<open>_processTransition\<close> with \<open>Push\<close> or \<open>Replace\<close> and no target activity): the model
  has no stack slot that holds \<open>undefined\<close>.
\<close>

datatype error = InvalidActivity | NoActivityToSuspend | TypeError | Rejected string | IllTyped

text \<open>
  The frozen object of the interface \<open>ActivityTransition\<close>. \<open>t_id\<close> is the string
  \<open>"T" + _nextTransitionID\<close>, \<open>t_activityStack\<close> the identity of the stack instance.
\<close>

datatype transition = Transition
  (t_id: string) (t_activityStack: nat) (t_op: operation)
  (t_to: "aref option") (t_from: "aref option") (t_previous: "transition option")

datatype lifecycle = Starting | Started | Resuming | Resumed | Suspending | Suspended | Deactivated

text \<open>
  What an observer of the signals sees, in emission order. \<open>StackMutated\<close> is not a
  signal: it marks the end of the \<open>switch\<close> statement that mutates \<open>_stack\<close>,
  \<open>topIndex\<close> and \<open>_historyIds\<close>, and carries their new values.
\<close>

datatype event =
  Lifecycle lifecycle aref transition
  | TransitionSignal transition
  | StackMutated "aref list" int "string option list"
  | TransitionSync transition

text \<open>The module-level variables (lines 4 to 8), shared by all stack instances.\<close>

record globals =
  historyIdBase :: string
  nextHistoryId :: nat
  nextTransitionID :: nat
  previousTransition :: "transition option"

text \<open>
  The private fields of one \<open>ActivityStack\<close>. A hole of \<open>_historyIds\<close> is \<open>None\<close>. The two
  promise chains \<open>_transitionP\<close> and \<open>_pushP\<close> are kept by their settled state: \<open>None\<close>
  for fulfilled, \<open>Some e\<close> for rejected with \<open>e\<close>. Every operation below is run at the
  moment its chain invokes it, one operation after the other.
\<close>

record activity_stack =
  stackId :: nat
  stack :: "aref list"
  topIndex :: int
  historyIds :: "string option list"
  transitionP :: "error option"
  pushP :: "error option"

record env =
  heap :: "aref \<Rightarrow> activity"
  getInstance :: "cref \<Rightarrow> aref"
  handlers :: "lifecycle \<Rightarrow> aref \<Rightarrow> transition \<Rightarrow> error option"

datatype target = ByInstance aref | ByClass cref

section \<open>Array reads and number formatting\<close>

text \<open>\<open>xs[i]\<close> on a JavaScript array: \<open>undefined\<close> outside the array.\<close>

definition slot :: "'a list \<Rightarrow> int \<Rightarrow> 'a option" where
  "slot xs i = (if 0 \<le> i \<and> i < int (length xs) then Some (xs ! nat i) else None)"

definition digit_char :: "nat \<Rightarrow> char" where
  "digit_char d = ''0123456789'' ! d"

function string_of_nat :: "nat \<Rightarrow> string" where
  "string_of_nat n =
     (if n < 10 then [digit_char n] else string_of_nat (n div 10) @ [digit_char (n mod 10)])"
  by pat_completeness auto
termination
  by (relation "measure (\<lambda>n. n)") auto

declare string_of_nat.simps [simp del]

text \<open>\<open>xs.length = n\<close>: truncates, or extends with holes.\<close>

definition set_length :: "nat \<Rightarrow> 'a option list \<Rightarrow> 'a option list" where
  "set_length n xs = take n xs @ replicate (n - length xs) None"

text \<open>\<open>xs.lastIndexOf(x)\<close>: the scan runs from the last index down to 0.\<close>

fun lastIndexOf_from :: "'a list \<Rightarrow> 'a \<Rightarrow> nat \<Rightarrow> int" where
  "lastIndexOf_from xs x 0 = - 1"
| "lastIndexOf_from xs x (Suc i) = (if xs ! i = x then int i else lastIndexOf_from xs x i)"

definition lastIndexOf :: "'a list \<Rightarrow> 'a \<Rightarrow> int" where
  "lastIndexOf xs x = lastIndexOf_from xs x (length xs)"

section \<open>Queries\<close>

text \<open>The getter \<open>top\<close> (lines 156 to 159).\<close>

definition stack_top :: "activity_stack \<Rightarrow> aref option" where
  "stack_top s = (if topIndex s < 0 then None else slot (stack s) (topIndex s))"

definition instanceOf :: "env \<Rightarrow> aref option \<Rightarrow> cref \<Rightarrow> bool" where
  "instanceOf env x c = (case x of None \<Rightarrow> False | Some a \<Rightarrow> c \<in> set (classes (heap env a)))"

definition matches :: "env \<Rightarrow> aref option \<Rightarrow> target \<Rightarrow> bool" where
  "matches env x tg = (case tg of ByInstance a \<Rightarrow> x = Some a | ByClass c \<Rightarrow> instanceOf env x c)"

text \<open>\<open>contains\<close> (lines 132 to 143): \<open>for (var i = this.topIndex; i >= 0; i--)\<close>.\<close>

fun contains_from :: "env \<Rightarrow> aref list \<Rightarrow> target \<Rightarrow> nat \<Rightarrow> bool" where
  "contains_from env st tg 0 = False"
| "contains_from env st tg (Suc i) =
     (if matches env (slot st (int i)) tg then True else contains_from env st tg i)"

definition contains :: "env \<Rightarrow> activity_stack \<Rightarrow> target \<Rightarrow> bool" where
  "contains env s tg = contains_from env (stack s) tg (nat (topIndex s + 1))"

text \<open>\<open>getParent\<close> (lines 118 to 129): the scan starts below the foreground.\<close>

fun getParent_from ::
  "env \<Rightarrow> aref list \<Rightarrow> cref \<Rightarrow> aref option \<Rightarrow> bool \<Rightarrow> nat \<Rightarrow> aref option" where
  "getParent_from env st c before seenBefore 0 = None"
| "getParent_from env st c before seenBefore (Suc i) =
     (if (seenBefore \<or> before = None) \<and> instanceOf env (slot st (int i)) c
      then slot st (int i)
      else getParent_from env st c before (seenBefore \<or> slot st (int i) = before) i)"

definition getParent :: "env \<Rightarrow> activity_stack \<Rightarrow> cref \<Rightarrow> aref option \<Rightarrow> aref option" where
  "getParent env s c before =
     getParent_from env (stack s) c before (slot (stack s) (topIndex s) = before)
       (nat (topIndex s))"

text \<open>
  The getter \<open>title\<close> (lines 167 to 173). Reading \<open>.title\<close> of an empty slot throws.
\<close>

fun title_from :: "env \<Rightarrow> aref list \<Rightarrow> nat \<Rightarrow> error + string option" where
  "title_from env st 0 = Inr None"
| "title_from env st (Suc i) =
     (case slot st (int i) of
        None \<Rightarrow> Inl TypeError
      | Some a \<Rightarrow>
          (case title (heap env a) of
             Some ttl \<Rightarrow> Inr (Some ttl)
           | None \<Rightarrow> title_from env st i))"

definition get_title :: "env \<Rightarrow> activity_stack \<Rightarrow> error + string" where
  "get_title env s =
     (case title_from env (stack s) (nat (topIndex s + 1)) of
        Inl e \<Rightarrow> Inl e
      | Inr None \<Rightarrow> Inr ''''
      | Inr (Some ttl) \<Rightarrow> Inr ttl)"

section \<open>The transition engine\<close>

definition mintHistoryId :: "globals \<Rightarrow> string" where
  "mintHistoryId g = historyIdBase g @ string_of_nat (nextHistoryId g)"

text \<open>
  The loop that drops the forward history (lines 379 to 383):
  \<open>while (this._stack.length > this.topIndex + 1) { var oldTop = this._stack.pop()!;
  if (!this.contains(oldTop)) oldTop.Deactivated(t); }\<close>.
  With \<open>topIndex < -1\<close> the loop reaches the empty array, \<open>pop()\<close> returns \<open>undefined\<close>
  and \<open>oldTop.Deactivated\<close> throws. The result is the stack, the emissions, and the
  error if one was thrown.
\<close>

function truncateStack ::
  "env \<Rightarrow> activity_stack \<Rightarrow> transition \<Rightarrow> activity_stack \<times> event list \<times> error option" where
  "truncateStack env s t =
     (if int (length (stack s)) > topIndex s + 1 then
        (if stack s = [] then (s, [], Some TypeError)
         else
           (case truncateStack env (s\<lparr>stack := butlast (stack s)\<rparr>) t of
              (s', evs, err) \<Rightarrow>
                (s',
                 (if contains env (s\<lparr>stack := butlast (stack s)\<rparr>) (ByInstance (last (stack s)))
                  then [] else [Lifecycle Deactivated (last (stack s)) t]) @ evs,
                 err)))
      else (s, [], None))"
  by pat_completeness auto
termination
  by (relation "measure (\<lambda>(env, s, t). length (stack s))") auto

declare truncateStack.simps [simp del]

text \<open>
  The \<open>Push\<close> case of the \<open>switch\<close> (lines 371 to 390), also reached by fall-through
  from \<open>Replace\<close>.
\<close>

definition pushCommit ::
  "env \<Rightarrow> globals \<Rightarrow> activity_stack \<Rightarrow> transition \<Rightarrow> aref
     \<Rightarrow> globals \<times> activity_stack \<times> event list \<times> error option" where
  "pushCommit env g s t a =
     (if int (length (stack s)) > topIndex s + 1 \<and> slot (stack s) (topIndex s + 1) = Some a
      then (g, s\<lparr>topIndex := topIndex s + 1\<rparr>, [], None)
      else
        (case truncateStack env s t of
           (s1, evs, Some e) \<Rightarrow> (g, s1, evs, Some e)
         | (s1, evs, None) \<Rightarrow>
             (g\<lparr>nextHistoryId := nextHistoryId g + 1\<rparr>,
              s1\<lparr>stack := stack s1 @ [a],
                 topIndex := int (length (stack s1)),
                 historyIds :=
                   (set_length (Suc (length (stack s1))) (historyIds s1))
                     [length (stack s1) := Some (mintHistoryId g)]\<rparr>,
              evs, None)))"

text \<open>The \<open>switch (t.op)\<close> of lines 363 to 391.\<close>

definition commitOp ::
  "env \<Rightarrow> globals \<Rightarrow> activity_stack \<Rightarrow> transition
     \<Rightarrow> globals \<times> activity_stack \<times> event list \<times> error option" where
  "commitOp env g s t =
     (case t_op t of
        Pop \<Rightarrow> (g, s\<lparr>topIndex := topIndex s - 1\<rparr>, [], None)
      | Replace \<Rightarrow>
          (case t_to t of
             None \<Rightarrow> (g, s\<lparr>topIndex := topIndex s - 1\<rparr>, [], Some IllTyped)
           | Some a \<Rightarrow> pushCommit env g (s\<lparr>topIndex := topIndex s - 1\<rparr>) t a)
      | Push \<Rightarrow>
          (case t_to t of
             None \<Rightarrow> (g, s, [], Some IllTyped)
           | Some a \<Rightarrow> pushCommit env g s t a))"

text \<open>
  \<open>_processTransition\<close>, first part (lines 333 to 339): the transition object is created
  and becomes the module-level \<open>previousTransition\<close>.
\<close>

definition newTransition ::
  "globals \<Rightarrow> activity_stack \<Rightarrow> aref option \<Rightarrow> operation \<Rightarrow> transition \<times> globals" where
  "newTransition g s to op =
     (let t = Transition (''T'' @ string_of_nat (nextTransitionID g)) (stackId s) op to
                (stack_top s) (previousTransition g)
      in (t, g\<lparr>nextTransitionID := nextTransitionID g + 1, previousTransition := Some t\<rparr>))"

text \<open>
  \<open>_processTransition\<close>, second part (lines 341 to 401). The promise of the step is
  \<open>Inr t\<close> when it resolves and \<open>Inl e\<close> when it rejects. \<open>Promise.all\<close> over the results
  of the \<open>Suspending\<close> handlers, then over those of the \<open>Resuming\<close> or \<open>Starting\<close>
  handlers, rejects when \<open>handlers env\<close> says so; the second signal is emitted only
  after the first wait went through.
\<close>

definition transitionBody ::
  "env \<Rightarrow> globals \<Rightarrow> activity_stack \<Rightarrow> transition
     \<Rightarrow> globals \<times> activity_stack \<times> event list \<times> (error + transition)" where
  "transitionBody env g s t =
     (if stack_top s = t_to t then
        (g, if t_op t = Pop then s\<lparr>topIndex := topIndex s - 1\<rparr> else s, [], Inr t)
      else
        (let top = stack_top s;
             suspending = (case top of None \<Rightarrow> [] | Some a \<Rightarrow> [Lifecycle Suspending a t]);
             suspense = (case top of None \<Rightarrow> None | Some a \<Rightarrow> handlers env Suspending a t);
             resuming = (case t_to t of None \<Rightarrow> False | Some a \<Rightarrow> contains env s (ByInstance a));
             entering = (if resuming then Resuming else Starting)
         in
           (case suspense of
              Some e \<Rightarrow> (g, s, suspending, Inl e)
            | None \<Rightarrow>
                (case (case t_to t of None \<Rightarrow> None | Some a \<Rightarrow> handlers env entering a t) of
                   Some e \<Rightarrow>
                     (g, s,
                      suspending @ (case t_to t of None \<Rightarrow> [] | Some a \<Rightarrow> [Lifecycle entering a t]),
                      Inl e)
                 | None \<Rightarrow>
                     (case commitOp env g s t of
                        (g1, s1, evs, Some e) \<Rightarrow>
                          (g1, s1,
                           suspending
                             @ (case t_to t of None \<Rightarrow> [] | Some a \<Rightarrow> [Lifecycle entering a t])
                             @ [TransitionSignal t] @ evs,
                           Inl e)
                      | (g1, s1, evs, None) \<Rightarrow>
                          (g1, s1,
                           suspending
                             @ (case t_to t of None \<Rightarrow> [] | Some a \<Rightarrow> [Lifecycle entering a t])
                             @ [TransitionSignal t] @ evs
                             @ [StackMutated (stack s1) (topIndex s1) (historyIds s1),
                                TransitionSync t]
                             @ (case t_to t of
                                  None \<Rightarrow> []
                                | Some a \<Rightarrow>
                                    (if resuming then [] else [Lifecycle Started a t])
                                      @ [Lifecycle Resumed a t])
                             @ (case top of None \<Rightarrow> [] | Some a \<Rightarrow> [Lifecycle Suspended a t]),
                           Inr t))))))"

definition processTransition ::
  "env \<Rightarrow> globals \<Rightarrow> activity_stack \<Rightarrow> aref option \<Rightarrow> operation
     \<Rightarrow> globals \<times> activity_stack \<times> event list \<times> (error + transition)" where
  "processTransition env g s to op =
     (case newTransition g s to op of (t, g1) \<Rightarrow> transitionBody env g1 s t)"

section \<open>The public operations\<close>

text \<open>
  An operation returns the module-level variables, the stack, the emissions and the
  settled state of the promise it returned. A chain that is already rejected does not
  invoke the callback appended to it with \<open>then\<close>, and the new promise rejects with the
  same reason. The argument of \<open>pushAsync\<close> and \<open>replaceAsync\<close> is an activity
  reference, so their guard \<open>activity instanceof Activity\<close> is passed.
\<close>

definition rejection :: "error + 'a \<Rightarrow> error option" where
  "rejection r = (case r of Inl e \<Rightarrow> Some e | Inr _ \<Rightarrow> None)"

text \<open>\<open>popAsync\<close> (lines 73 to 85); \<open>act = None\<close> is the call without argument.\<close>

definition popAsync ::
  "env \<Rightarrow> globals \<Rightarrow> activity_stack \<Rightarrow> aref option
     \<Rightarrow> globals \<times> activity_stack \<times> event list \<times> (error + transition option)" where
  "popAsync env g s act =
     (case transitionP s of
        Some e \<Rightarrow> (g, s, [], Inl e)
      | None \<Rightarrow>
          (if topIndex s < 0 then
             (g\<lparr>previousTransition := None\<rparr>, s\<lparr>transitionP := Some NoActivityToSuspend\<rparr>, [],
              Inl NoActivityToSuspend)
           else if act \<noteq> None \<and> stack_top s \<noteq> act then
             (g\<lparr>previousTransition := None\<rparr>, s, [], Inr None)
           else
             (case processTransition env (g\<lparr>previousTransition := None\<rparr>) s
                     (slot (stack s) (topIndex s - 1)) Pop of
                (g1, s1, evs, r) \<Rightarrow> (g1, s1\<lparr>transitionP := rejection r\<rparr>, evs, map_sum id Some r))))"

text \<open>
  The closure \<open>recurse\<close> of \<open>upAsync\<close> (lines 92 to 110), with its counter \<open>count\<close> as an
  argument. It resolves with the variable \<open>result\<close>.
\<close>

function recurse ::
  "env \<Rightarrow> target \<Rightarrow> globals \<Rightarrow> activity_stack \<Rightarrow> nat
     \<Rightarrow> globals \<times> activity_stack \<times> event list \<times> (error + aref option)" where
  "recurse env tg g s count =
     (if matches env (stack_top s) tg then (g, s, [], Inr (stack_top s))
      else if count < 1000 \<and> contains env s tg then
        (case processTransition env g s (slot (stack s) (topIndex s - 1)) Pop of
           (g1, s1, evs, Inl e) \<Rightarrow> (g1, s1, evs, Inl e)
         | (g1, s1, evs, Inr t) \<Rightarrow>
             (case recurse env tg g1 s1 (Suc count) of
                (g2, s2, evs2, r) \<Rightarrow> (g2, s2, evs @ evs2, r)))
      else (g, s, [], Inr None))"
  by pat_completeness auto
termination
  by (relation "measure (\<lambda>(env, tg, g, s, count). 1000 - count)") auto

declare recurse.simps [simp del]

definition upAsync ::
  "env \<Rightarrow> globals \<Rightarrow> activity_stack \<Rightarrow> target
     \<Rightarrow> globals \<times> activity_stack \<times> event list \<times> (error + aref option)" where
  "upAsync env g s tg =
     (case transitionP s of
        Some e \<Rightarrow> (g, s, [], Inl e)
      | None \<Rightarrow>
          (case recurse env tg (g\<lparr>previousTransition := None\<rparr>) s 0 of
             (g1, s1, evs, r) \<Rightarrow> (g1, s1\<lparr>transitionP := rejection r\<rparr>, evs, r)))"

text \<open>
  The cursor of \<open>getCursor\<close> (lines 176 to 202), as \<open>_popTransient\<close> uses it: the getter
  \<open>activity\<close> clamps the index to the array, \<open>goBack\<close> decrements it.
\<close>

definition clampIdx :: "aref list \<Rightarrow> int \<Rightarrow> int" where
  "clampIdx st idx = (if idx \<ge> int (length st) then int (length st) - 1 else idx)"

function cursorPastTransient :: "env \<Rightarrow> aref list \<Rightarrow> int \<Rightarrow> aref option" where
  "cursorPastTransient env st idx =
     (if clampIdx st idx < 0 then None
      else
        (case slot st (clampIdx st idx) of
           None \<Rightarrow> None
         | Some a \<Rightarrow>
             (if isTransient (options (heap env a))
              then cursorPastTransient env st (clampIdx st idx - 1)
              else Some a)))"
  by pat_completeness auto
termination
  by (relation "measure (\<lambda>(env, st, idx). nat (idx + 1))") (auto simp: clampIdx_def split: if_splits)

declare cursorPastTransient.simps [simp del]

text \<open>
  \<open>_popTransient\<close> (lines 318 to 327): the activity it calls \<open>upAsync\<close> with, if any.
\<close>

definition popTransientTarget :: "env \<Rightarrow> activity_stack \<Rightarrow> aref option" where
  "popTransientTarget env s =
     (case stack_top s of
        None \<Rightarrow> None
      | Some a \<Rightarrow>
          (if isTransient (options (heap env a))
           then cursorPastTransient env (stack s) (topIndex s)
           else None))"

text \<open>
  The tests of \<open>_upToHubOrRoot\<close> (lines 298 to 312): the root or hub activity it calls
  \<open>upAsync\<close> with, if any.
\<close>

definition hubOrRootTarget :: "env \<Rightarrow> activity_stack \<Rightarrow> aref \<Rightarrow> aref option" where
  "hubOrRootTarget env s act =
     (if isRootActivity (options (heap env act)) \<and> contains env s (ByInstance act) then Some act
      else
        (case parentActivity (options (heap env act)) of
           None \<Rightarrow> None
         | Some p \<Rightarrow>
             (case (case p of ParentInstance q \<Rightarrow> Some q | ParentClass c \<Rightarrow> getParent env s c None) of
                None \<Rightarrow> None
              | Some q \<Rightarrow> if isHubActivity (options (heap env q)) then Some q else None)))"

text \<open>
  \<open>_upToHubOrRoot\<close> (lines 294 to 315). \<open>_popTransient\<close> only appends its \<open>upAsync\<close> to
  the transition chain, so the tests for a root or hub activity read the stack as it is
  before that walk runs. The result is \<open>Some e\<close> when the returned promise rejects.
  \<open>Async.sleep\<close> changes nothing.
\<close>

definition upToHubOrRoot ::
  "env \<Rightarrow> globals \<Rightarrow> activity_stack \<Rightarrow> aref
     \<Rightarrow> globals \<times> activity_stack \<times> event list \<times> error option" where
  "upToHubOrRoot env g s act =
     (case (case popTransientTarget env s of
              None \<Rightarrow> (g, s, [])
            | Some x \<Rightarrow>
                (case upAsync env g s (ByInstance x) of (g1, s1, evs1, r) \<Rightarrow> (g1, s1, evs1))) of
        (g1, s1, evs1) \<Rightarrow>
          (case transitionP s1 of
             Some e \<Rightarrow> (g1, s1, evs1, Some e)
           | None \<Rightarrow>
               (case hubOrRootTarget env s act of
                  None \<Rightarrow> (g1, s1, evs1, None)
                | Some q \<Rightarrow>
                    (case upAsync env g1 s1 (ByInstance q) of
                       (g2, s2, evs2, r) \<Rightarrow> (g2, s2, evs1 @ evs2, rejection r)))))"

text \<open>
  \<open>_findParents\<close> (lines 272 to 291). \<open>nextParent\<close> is one round of the \<open>while\<close> loop for
  \<open>result[0] = r\<close>: \<open>None\<close> when the loop ends there (no declared parent, or a
  \<open>break\<close>), else the activity that is put in front. The loop does not end when the
  declared parents form a cycle outside the stack, so it is a partial function.
\<close>

definition nextParent :: "env \<Rightarrow> activity_stack \<Rightarrow> bool \<Rightarrow> aref \<Rightarrow> aref option" where
  "nextParent env s excludeTop r =
     (case parentActivity (options (heap env r)) of
        None \<Rightarrow> None
      | Some (ParentInstance p) \<Rightarrow>
          (if contains env s (ByInstance p) \<and> (\<not> excludeTop \<or> stack_top s \<noteq> Some p)
           then None else Some p)
      | Some (ParentClass c) \<Rightarrow>
          (if (\<not> excludeTop \<and> instanceOf env (stack_top s) c) \<or> getParent env s c None \<noteq> None
           then None else Some (getInstance env c)))"

partial_function (option) findParents_loop ::
  "env \<Rightarrow> activity_stack \<Rightarrow> bool \<Rightarrow> aref \<Rightarrow> aref list \<Rightarrow> aref list option" where
  "findParents_loop env s excludeTop r rest =
     (case nextParent env s excludeTop r of
        None \<Rightarrow> Some (r # rest)
      | Some p \<Rightarrow> findParents_loop env s excludeTop p (r # rest))"

declare findParents_loop.simps [code]

definition findParents :: "env \<Rightarrow> activity_stack \<Rightarrow> aref \<Rightarrow> bool \<Rightarrow> aref list option" where
  "findParents env s act excludeTop = findParents_loop env s excludeTop act []"

text \<open>
  The \<open>forEach\<close> of \<open>pushAsync\<close> and \<open>replaceAsync\<close>: one transition per activity, each
  started when the promise of the one before resolved. The first has the operation
  \<open>op\<close>, the others \<open>Push\<close>. The value is that of the last promise.
\<close>

fun runChain ::
  "env \<Rightarrow> globals \<Rightarrow> activity_stack \<Rightarrow> operation \<Rightarrow> aref list
     \<Rightarrow> globals \<times> activity_stack \<times> event list \<times> (error + transition option)" where
  "runChain env g s op [] = (g, s, [], Inr None)"
| "runChain env g s op (a # rest) =
     (case processTransition env g s (Some a) op of
        (g1, s1, evs, Inl e) \<Rightarrow> (g1, s1, evs, Inl e)
      | (g1, s1, evs, Inr t) \<Rightarrow>
          (if rest = [] then (g1, s1, evs, Inr (Some t))
           else
             (case runChain env g1 s1 Push rest of
                (g2, s2, evs2, r) \<Rightarrow> (g2, s2, evs @ evs2, r))))"

text \<open>\<open>pushAsync\<close> (lines 13 to 33). \<open>None\<close>: \<open>_findParents\<close> does not return.\<close>

definition pushAsync ::
  "env \<Rightarrow> globals \<Rightarrow> activity_stack \<Rightarrow> aref
     \<Rightarrow> (globals \<times> activity_stack \<times> event list \<times> (error + transition option)) option" where
  "pushAsync env g s act =
     (case pushP s of
        Some e \<Rightarrow> Some (g, s, [], Inl e)
      | None \<Rightarrow>
          (case upToHubOrRoot env g s act of
             (g1, s1, evs1, Some e) \<Rightarrow> Some (g1, s1\<lparr>pushP := Some e\<rparr>, evs1, Inl e)
           | (g1, s1, evs1, None) \<Rightarrow>
               (case transitionP s1 of
                  Some e \<Rightarrow> Some (g1, s1\<lparr>pushP := Some e\<rparr>, evs1, Inl e)
                | None \<Rightarrow>
                    (case findParents env s1 act False of
                       None \<Rightarrow> None
                     | Some ps \<Rightarrow>
                         (case runChain env (g1\<lparr>previousTransition := None\<rparr>) s1 Push ps of
                            (g2, s2, evs2, r) \<Rightarrow>
                              Some (g2, s2\<lparr>transitionP := rejection r, pushP := rejection r\<rparr>,
                                    evs1 @ evs2, r))))))"

text \<open>\<open>replaceAsync\<close> (lines 36 to 67).\<close>

definition replaceAsync ::
  "env \<Rightarrow> globals \<Rightarrow> activity_stack \<Rightarrow> aref
     \<Rightarrow> (globals \<times> activity_stack \<times> event list \<times> (error + transition option)) option" where
  "replaceAsync env g s act =
     (case pushP s of
        Some e \<Rightarrow> Some (g, s, [], Inl e)
      | None \<Rightarrow>
          (case upToHubOrRoot env g s act of
             (g1, s1, evs1, Some e) \<Rightarrow> Some (g1, s1\<lparr>pushP := Some e\<rparr>, evs1, Inl e)
           | (g1, s1, evs1, None) \<Rightarrow>
               (case transitionP s1 of
                  Some e \<Rightarrow> Some (g1, s1\<lparr>pushP := Some e\<rparr>, evs1, Inl e)
                | None \<Rightarrow>
                    (if \<not> topIndex s1 < 0 \<and> slot (stack s1) (topIndex s1 - 1) = Some act then
                       (case processTransition env (g1\<lparr>previousTransition := None\<rparr>) s1
                               (Some act) Pop of
                          (g2, s2, evs2, r) \<Rightarrow>
                            Some (g2, s2\<lparr>transitionP := rejection r, pushP := rejection r\<rparr>,
                                  evs1 @ evs2, map_sum id Some r))
                     else
                       (case findParents env s1 act True of
                          None \<Rightarrow> None
                        | Some ps \<Rightarrow>
                            (case runChain env (g1\<lparr>previousTransition := None\<rparr>) s1
                                    (if topIndex s1 < 0 then Push else Replace) ps of
                               (g2, s2, evs2, r) \<Rightarrow>
                                 Some (g2, s2\<lparr>transitionP := rejection r, pushP := rejection r\<rparr>,
                                       evs1 @ evs2, r)))))))"

section \<open>History snapshots\<close>

record snapshot =
  snap_title :: string
  snap_activity :: aref
  snap_path :: "string option"
  snap_historyId :: "string option"

text \<open>
  The loop of \<open>getHistoryAfter\<close> that moves past background activities (lines 244 to
  248), called with the index already incremented once.
\<close>

function skipBackground :: "env \<Rightarrow> activity_stack \<Rightarrow> int \<Rightarrow> error + int" where
  "skipBackground env s idx =
     (if idx \<le> topIndex s then
        (case slot (stack s) idx of
           None \<Rightarrow> Inl TypeError
         | Some a \<Rightarrow>
             (if isBackgroundActivity (options (heap env a))
              then skipBackground env s (idx + 1)
              else Inr idx))
      else Inr idx)"
  by pat_completeness auto
termination
  by (relation "measure (\<lambda>(env, s, idx). nat (topIndex s + 1 - idx))") auto

declare skipBackground.simps [simp del]

text \<open>
  \<open>getHistoryAfter\<close> (lines 240 to 269). The empty string is the only falsy
  \<open>historyId\<close>.
\<close>

definition getHistoryAfter :: "env \<Rightarrow> activity_stack \<Rightarrow> string \<Rightarrow> error + snapshot option" where
  "getHistoryAfter env s historyId =
     (let idx = lastIndexOf (historyIds s) (Some historyId) in
      if historyId \<noteq> [] \<and> idx < 0 then Inr None
      else
        (case skipBackground env s (idx + 1) of
           Inl e \<Rightarrow> Inl e
         | Inr idx' \<Rightarrow>
             (if idx' > topIndex s then Inr None
              else
                (case get_title env s of
                   Inl e \<Rightarrow> Inl e
                 | Inr ttl \<Rightarrow>
                     (case title_from env (stack s) (nat (idx' + 1)) of
                        Inl e \<Rightarrow> Inl e
                      | Inr found \<Rightarrow>
                          (case slot (stack s) idx' of
                             None \<Rightarrow> Inl TypeError
                           | Some a \<Rightarrow>
                               Inr (Some \<lparr>snap_title = (case found of None \<Rightarrow> ttl | Some x \<Rightarrow> x),
                                          snap_activity = a,
                                          snap_path = getPath (heap env a),
                                          snap_historyId =
                                            (case slot (historyIds s) idx' of
                                               None \<Rightarrow> None | Some h \<Rightarrow> h)\<rparr>)))))))"

section \<open>Initial state and sample values\<close>

text \<open>The field initialisers of the class (lines 405 to 412) and of the module.\<close>

definition newActivityStack :: "nat \<Rightarrow> activity_stack" where
  "newActivityStack i =
     \<lparr>stackId = i, stack = [], topIndex = - 1, historyIds = [],
      transitionP = None, pushP = None\<rparr>"

definition initialGlobals :: "string \<Rightarrow> globals" where
  "initialGlobals base =
     \<lparr>historyIdBase = base, nextHistoryId = 0, nextTransitionID = 0, previousTransition = None\<rparr>"

text \<open>
  An activity with no title, no declared parent and no flag set, and an environment
  in which no awaited handler rejects.
\<close>

definition bareOptions :: activity_options where
  "bareOptions =
     \<lparr>parentActivity = None, isRootActivity = False, isHubActivity = False,
      isTransient = False, isBackgroundActivity = False\<rparr>"

definition bareActivity :: activity where
  "bareActivity = \<lparr>classes = [], title = None, options = bareOptions, getPath = None\<rparr>"

definition quietEnv :: "(aref \<Rightarrow> activity) \<Rightarrow> env" where
  "quietEnv h = \<lparr>heap = h, getInstance = (\<lambda>c. 0), handlers = (\<lambda>l a t. None)\<rparr>"

text \<open>
  An environment in which the handlers of one lifecycle signal of one activity reject
  with the reason \<open>''veto''\<close>.
\<close>

definition vetoEnv :: "(aref \<Rightarrow> activity) \<Rightarrow> lifecycle \<Rightarrow> aref \<Rightarrow> env" where
  "vetoEnv h l a =
     \<lparr>heap = h, getInstance = (\<lambda>c. 0),
      handlers = (\<lambda>l' a' t. if l' = l \<and> a' = a then Some (Rejected ''veto'') else None)\<rparr>"

text \<open>
  Three activities with a declared parent chain: the parent of 3 is 2, the parent of 2
  is 1, and 1 has none.
\<close>

definition chainHeap :: "aref \<Rightarrow> activity" where
  "chainHeap =
     (\<lambda>a. bareActivity)
       (3 := bareActivity\<lparr>options := bareOptions\<lparr>parentActivity := Some (ParentInstance 2)\<rparr>\<rparr>,
        2 := bareActivity\<lparr>options := bareOptions\<lparr>parentActivity := Some (ParentInstance 1)\<rparr>\<rparr>)"

text \<open>
  A stack with the given array and \<open>topIndex\<close> whose slots carry the history ids
  \<open>_A000000\<close>, \<open>_A000001\<close>, ... in order, and module-level variables with the given
  counters.
\<close>

definition sampleStack :: "aref list \<Rightarrow> int \<Rightarrow> activity_stack" where
  "sampleStack xs n =
     \<lparr>stackId = 0, stack = xs, topIndex = n,
      historyIds = map (\<lambda>i. Some (''_A00000'' @ string_of_nat i)) [0..<length xs],
      transitionP = None, pushP = None\<rparr>"

definition sampleGlobals :: "nat \<Rightarrow> nat \<Rightarrow> globals" where
  "sampleGlobals h n =
     \<lparr>historyIdBase = ''_A00000'', nextHistoryId = h, nextTransitionID = n,
      previousTransition = None\<rparr>"

text \<open>
  The title accessor as the specification words it, for comparison with \<open>get_title\<close>:
  the nearest title, scanning downward from \<open>topIndex\<close>, that is non-empty, and the
  empty string when there is none.
\<close>

definition title_spec :: "env \<Rightarrow> activity_stack \<Rightarrow> string" where
  "title_spec env s =
     (case filter (\<lambda>ttl. ttl \<noteq> [])
             (List.map_filter (\<lambda>a. title (heap env a))
                (rev (take (nat (topIndex s + 1)) (stack s)))) of
        [] \<Rightarrow> []
      | ttl # _ \<Rightarrow> ttl)"

section \<open>Auxiliary facts\<close>

lemmas engine_defs =
  processTransition_def newTransition_def transitionBody_def commitOp_def pushCommit_def
  stack_top_def slot_def contains_def matches_def instanceOf_def mintHistoryId_def
  set_length_def rejection_def Let_def

lemmas sample_defs =
  newActivityStack_def initialGlobals_def bareOptions_def bareActivity_def quietEnv_def
  vetoEnv_def chainHeap_def sampleStack_def sampleGlobals_def

lemma string_of_nat_nonempty: "string_of_nat n \<noteq> []"
  by (subst string_of_nat.simps) simp

lemma truncateStack_events:
  "truncateStack env s t = (s', evs, err) \<Longrightarrow>
   \<exists>ds. evs = map (\<lambda>a. Lifecycle Deactivated a t) ds \<and> set ds \<subseteq> set (stack s)"
proof (induction env s t arbitrary: s' evs err rule: truncateStack.induct)
  case (1 env s t)
  show ?case
  proof (cases "int (length (stack s)) > topIndex s + 1 \<and> stack s \<noteq> []")
    case False
    with "1.prems" show ?thesis
      by (subst (asm) truncateStack.simps) (auto split: if_splits)
  next
    case True
    obtain s1 evs1 err1 where r: "truncateStack env (s\<lparr>stack := butlast (stack s)\<rparr>) t = (s1, evs1, err1)"
      by (cases "truncateStack env (s\<lparr>stack := butlast (stack s)\<rparr>) t") auto
    from "1.IH"[OF _ _ r] True obtain ds where
      ds: "evs1 = map (\<lambda>a. Lifecycle Deactivated a t) ds" "set ds \<subseteq> set (butlast (stack s))"
      by auto
    from "1.prems" True r have
      evs: "evs = (if contains env (s\<lparr>stack := butlast (stack s)\<rparr>) (ByInstance (last (stack s)))
                  then [] else [Lifecycle Deactivated (last (stack s)) t]) @ evs1"
      by (subst (asm) truncateStack.simps) auto
    show ?thesis
    proof (cases "contains env (s\<lparr>stack := butlast (stack s)\<rparr>) (ByInstance (last (stack s)))")
      case True
      with evs ds show ?thesis
        by (intro exI[of _ ds]) (auto dest: in_set_butlastD)
    next
      case False
      with evs ds \<open>int (length (stack s)) > topIndex s + 1 \<and> stack s \<noteq> []\<close> show ?thesis
        by (intro exI[of _ "last (stack s) # ds"]) (auto dest: in_set_butlastD)
    qed
  qed
qed

lemma truncateStack_ok:
  "0 \<le> topIndex s + 1 \<Longrightarrow>
   \<exists>evs. truncateStack env s t =
     (s\<lparr>stack := take (nat (topIndex s + 1)) (stack s)\<rparr>, evs, None)"
proof (induction env s t rule: truncateStack.induct)
  case (1 env s t)
  show ?case
  proof (cases "int (length (stack s)) > topIndex s + 1")
    case False
    then show ?thesis
      by (subst truncateStack.simps) simp
  next
    case True
    with "1.prems" have ne: "stack s \<noteq> []" by auto
    from "1.IH"[OF True ne] "1.prems" obtain evs1 where
      r: "truncateStack env (s\<lparr>stack := butlast (stack s)\<rparr>) t =
            (s\<lparr>stack := take (nat (topIndex s + 1)) (butlast (stack s))\<rparr>, evs1, None)"
      by auto
    have "take (nat (topIndex s + 1)) (butlast (stack s)) = take (nat (topIndex s + 1)) (stack s)"
      using True "1.prems" by (simp add: take_butlast)
    with r True ne show ?thesis
      by (subst truncateStack.simps) simp
  qed
qed

lemma pushCommit_ok:
  assumes "0 \<le> topIndex s + 1"
  shows "\<exists>g' s' ds. pushCommit env g s t a = (g', s', map (\<lambda>a. Lifecycle Deactivated a t) ds, None)"
proof -
  obtain evs where r: "truncateStack env s t =
     (s\<lparr>stack := take (nat (topIndex s + 1)) (stack s)\<rparr>, evs, None)"
    using truncateStack_ok[OF assms] by blast
  from truncateStack_events[OF r] obtain ds where "evs = map (\<lambda>a. Lifecycle Deactivated a t) ds"
    by blast
  with r show ?thesis
    unfolding pushCommit_def
    by (cases "int (length (stack s)) > topIndex s + 1 \<and> slot (stack s) (topIndex s + 1) = Some a")
       (auto intro: exI[of _ "[]"])
qed

lemma commitOp_ok:
  assumes "0 \<le> topIndex s" and "t_to t = Some a"
  shows "\<exists>g' s' ds. commitOp env g s t = (g', s', map (\<lambda>a. Lifecycle Deactivated a t) ds, None)"
proof (cases "t_op t")
  case Push
  with assms pushCommit_ok[of s env g t a] show ?thesis
    by (simp add: commitOp_def)
next
  case Replace
  with assms pushCommit_ok[of "s\<lparr>topIndex := topIndex s - 1\<rparr>" env g t a] show ?thesis
    by (simp add: commitOp_def)
next
  case Pop
  then show ?thesis
    by (auto simp: commitOp_def intro: exI[of _ "[]"])
qed

lemma stack_top_Some_topIndex: "stack_top s = Some a \<Longrightarrow> 0 \<le> topIndex s"
  by (simp add: stack_top_def split: if_splits)

lemma runChain_step:
  "runChain env g s op xs = (g1, s1, evs1, Inr r) \<Longrightarrow>
   processTransition env g1 s1 (Some y) (if xs = [] then op else Push) = (g2, s2, evs2, Inl e) \<Longrightarrow>
   runChain env g s op (xs @ y # ys) = (g2, s2, evs1 @ evs2, Inl e)"
proof (induction xs arbitrary: g s op g1 s1 evs1 r)
  case Nil
  then show ?case by simp
next
  case (Cons x xs)
  obtain ga sa evsa ra where p: "processTransition env g s (Some x) op = (ga, sa, evsa, ra)"
    by (cases "processTransition env g s (Some x) op") auto
  show ?case
  proof (cases ra)
    case (Inl e')
    with Cons.prems p show ?thesis by simp
  next
    case (Inr t)
    show ?thesis
    proof (cases "xs = []")
      case True
      with Cons.prems p Inr show ?thesis by simp
    next
      case False
      obtain gb sb evsb rb where q: "runChain env ga sa Push xs = (gb, sb, evsb, rb)"
        by (cases "runChain env ga sa Push xs") auto
      with Cons.prems p Inr False have eq: "gb = g1" "sb = s1" "evsa @ evsb = evs1" "rb = Inr r"
        by auto
      from Cons.prems(2) False have
        "processTransition env g1 s1 (Some y) (if xs = [] then Push else Push) = (g2, s2, evs2, Inl e)"
        by simp
      from Cons.IH[OF q[unfolded eq(1,2,4)] this] p Inr False eq show ?thesis
        by auto
    qed
  qed
qed

lemma processTransition_rejected:
  fixes env g s to op
  defines "t \<equiv> fst (newTransition g s to op)"
  defines "suspense \<equiv> (case stack_top s of None \<Rightarrow> None | Some a \<Rightarrow> handlers env Suspending a t)"
  defines "entering \<equiv> (case to of None \<Rightarrow> None
      | Some b \<Rightarrow> handlers env (if contains env s (ByInstance b) then Resuming else Starting) b t)"
  assumes "stack_top s \<noteq> to"
    and "suspense = Some e \<or> (suspense = None \<and> entering = Some e)"
  shows "\<exists>evs. processTransition env g s to op = (snd (newTransition g s to op), s, evs, Inl e)"
  using assms
  by (auto simp: processTransition_def transitionBody_def newTransition_def Let_def
           split: option.splits)

lemma title_from_char:
  "n \<le> length st \<Longrightarrow>
   title_from env st n =
     Inr (case List.map_filter (\<lambda>a. title (heap env a)) (rev (take n st)) of
            [] \<Rightarrow> None | x # _ \<Rightarrow> Some x)"
proof (induction n)
  case 0
  then show ?case by (simp add: List.map_filter_simps)
next
  case (Suc n)
  then have sl: "slot st (int n) = Some (st ! n)" and tk: "take (Suc n) st = take n st @ [st ! n]"
    by (simp_all add: slot_def take_Suc_conv_app_nth)
  from Suc show ?case
    by (simp add: sl tk List.map_filter_simps split: option.splits)
qed

lemma get_title_char:
  assumes "topIndex s < int (length (stack s))"
  shows "get_title env s =
     Inr (case List.map_filter (\<lambda>a. title (heap env a)) (rev (take (nat (topIndex s + 1)) (stack s))) of
            [] \<Rightarrow> '''' | x # _ \<Rightarrow> x)"
proof -
  from assms have "nat (topIndex s + 1) \<le> length (stack s)" by simp
  from title_from_char[OF this, of env] show ?thesis
    by (simp add: get_title_def split: list.splits)
qed

lemma lastIndexOf_from_absent:
  "n \<le> length xs \<Longrightarrow> x \<notin> set xs \<Longrightarrow> lastIndexOf_from xs x n = - 1"
  by (induction n) auto

lemma lastIndexOf_absent: "x \<notin> set xs \<Longrightarrow> lastIndexOf xs x = - 1"
  by (simp add: lastIndexOf_def lastIndexOf_from_absent)

lemma skipBackground_char:
  "0 \<le> idx \<Longrightarrow> idx \<le> topIndex s + 1 \<Longrightarrow> topIndex s < int (length (stack s)) \<Longrightarrow>
   skipBackground env s idx =
     Inr (idx + int (length (takeWhile (\<lambda>a. isBackgroundActivity (options (heap env a)))
                            (drop (nat idx) (take (nat (topIndex s + 1)) (stack s))))))"
proof (induction env s idx rule: skipBackground.induct)
  case (1 env s idx)
  show ?case
  proof (cases "idx \<le> topIndex s")
    case False
    with "1.prems" have "nat idx = nat (topIndex s + 1)" by simp
    with False show ?thesis
      by (subst skipBackground.simps) simp
  next
    case True
    with "1.prems" have lt: "nat idx < length (take (nat (topIndex s + 1)) (stack s))" by simp
    from True "1.prems" have sl: "slot (stack s) idx = Some (stack s ! nat idx)"
      by (simp add: slot_def)
    have dr: "drop (nat idx) (take (nat (topIndex s + 1)) (stack s)) =
              (stack s ! nat idx) # drop (nat (idx + 1)) (take (nat (topIndex s + 1)) (stack s))"
    proof -
      have "drop (nat idx) (take (nat (topIndex s + 1)) (stack s)) =
            take (nat (topIndex s + 1)) (stack s) ! nat idx
              # drop (Suc (nat idx)) (take (nat (topIndex s + 1)) (stack s))"
        by (rule Cons_nth_drop_Suc[symmetric]) (rule lt)
      moreover have "take (nat (topIndex s + 1)) (stack s) ! nat idx = stack s ! nat idx"
        using lt by simp
      moreover have "Suc (nat idx) = nat (idx + 1)"
        using "1.prems" by simp
      ultimately show ?thesis by simp
    qed
    show ?thesis
    proof (cases "isBackgroundActivity (options (heap env (stack s ! nat idx)))")
      case bg: True
      from "1.IH"[OF True sl bg] "1.prems" True
      have "skipBackground env s (idx + 1) =
        Inr (idx + 1 + int (length (takeWhile (\<lambda>a. isBackgroundActivity (options (heap env a)))
                            (drop (nat (idx + 1)) (take (nat (topIndex s + 1)) (stack s))))))"
        by simp
      with True sl bg dr show ?thesis
        by (subst skipBackground.simps) simp
    next
      case nbg: False
      with True sl dr show ?thesis
        by (subst skipBackground.simps) simp
    qed
  qed
qed

lemma pushCommit_nextTransitionID:
  "pushCommit env g s t a = (g', s', evs, err) \<Longrightarrow> nextTransitionID g' = nextTransitionID g"
  by (auto simp: pushCommit_def split: if_splits prod.splits option.splits)

lemma commitOp_nextTransitionID:
  "commitOp env g s t = (g', s', evs, err) \<Longrightarrow> nextTransitionID g' = nextTransitionID g"
  by (auto simp: commitOp_def split: operation.splits option.splits
           dest: pushCommit_nextTransitionID)

lemma transitionBody_nextTransitionID:
  "transitionBody env g s t = (g', s', evs, r) \<Longrightarrow> nextTransitionID g' = nextTransitionID g"
  by (auto simp: transitionBody_def Let_def split: if_splits option.splits prod.splits
           dest: commitOp_nextTransitionID)

lemma processTransition_nextTransitionID:
  "processTransition env g s to op = (g', s', evs, r) \<Longrightarrow>
   nextTransitionID g' = Suc (nextTransitionID g)"
  by (auto simp: processTransition_def newTransition_def Let_def
           dest: transitionBody_nextTransitionID)

lemma recurse_bound:
  "recurse env tg g s count = (g', s', evs, r) \<Longrightarrow> count \<le> 1000 \<Longrightarrow>
   nextTransitionID g' + count \<le> nextTransitionID g + 1000
   \<and> (\<forall>x. r = Inr x \<longrightarrow> x = (if matches env (stack_top s') tg then stack_top s' else None))"
proof (induction env tg g s count arbitrary: g' s' evs r rule: recurse.induct)
  case (1 env tg g s count)
  show ?case
  proof (cases "matches env (stack_top s) tg")
    case True
    then have "recurse env tg g s count = (g, s, [], Inr (stack_top s))"
      by (subst recurse.simps) simp
    with "1.prems" have "g' = g" "s' = s" "r = Inr (stack_top s)" by auto
    with True "1.prems"(2) show ?thesis by simp
  next
    case nm: False
    show ?thesis
    proof (cases "count < 1000 \<and> contains env s tg")
      case False
      with nm have "recurse env tg g s count = (g, s, [], Inr None)"
        by (subst recurse.simps) auto
      with "1.prems" have "g' = g" "s' = s" "r = Inr None" by auto
      with nm "1.prems"(2) show ?thesis by simp
    next
      case True
      obtain g1 s1 evs1 r1 where
        p: "processTransition env g s (slot (stack s) (topIndex s - 1)) Pop = (g1, s1, evs1, r1)"
        by (cases "processTransition env g s (slot (stack s) (topIndex s - 1)) Pop") auto
      note n1 = processTransition_nextTransitionID[OF p]
      show ?thesis
      proof (cases r1)
        case (Inl e)
        with nm True p have "recurse env tg g s count = (g1, s1, evs1, Inl e)"
          by (subst recurse.simps) simp
        with "1.prems" have "g' = g1" "r = Inl e" by auto
        with n1 True show ?thesis by simp
      next
        case (Inr t)
        obtain g2 s2 evs2 r2 where q: "recurse env tg g1 s1 (Suc count) = (g2, s2, evs2, r2)"
          by (cases "recurse env tg g1 s1 (Suc count)") auto
        from nm True p Inr q have "recurse env tg g s count = (g2, s2, evs1 @ evs2, r2)"
          by (subst recurse.simps) simp
        with "1.prems" have eq: "g' = g2" "s' = s2" "r = r2" by auto
        from True have c: "Suc count \<le> 1000" by simp
        have "nextTransitionID g2 + Suc count \<le> nextTransitionID g1 + 1000
              \<and> (\<forall>x. r2 = Inr x \<longrightarrow> x = (if matches env (stack_top s2) tg then stack_top s2 else None))"
          by (rule "1.IH"[OF nm True p[symmetric] refl refl Inr q c])
        then have a: "nextTransitionID g2 + Suc count \<le> nextTransitionID g1 + 1000"
          and b: "\<forall>x. r2 = Inr x \<longrightarrow> x = (if matches env (stack_top s2) tg then stack_top s2 else None)"
          by blast+
        from a n1 eq have "nextTransitionID g' + count \<le> nextTransitionID g + 1000" by simp
        moreover from b eq have
          "\<forall>x. r = Inr x \<longrightarrow> x = (if matches env (stack_top s') tg then stack_top s' else None)"
          by blast
        ultimately show ?thesis by blast
      qed
    qed
  qed
qed

lemma matches_top_contains:
  "matches env (stack_top s) tg \<Longrightarrow> contains env s tg"
proof -
  assume m: "matches env (stack_top s) tg"
  have ne: "stack_top s \<noteq> None"
    using m by (auto simp: matches_def instanceOf_def split: target.splits option.splits)
  then have ti: "0 \<le> topIndex s" by (auto simp: stack_top_def split: if_splits)
  then have "nat (topIndex s + 1) = Suc (nat (topIndex s))" by simp
  moreover from ti have "stack_top s = slot (stack s) (int (nat (topIndex s)))"
    by (simp add: stack_top_def)
  ultimately show ?thesis using m by (simp add: contains_def)
qed

lemma upAsync_absent:
  "transitionP s = None \<Longrightarrow> \<not> contains env s tg \<Longrightarrow>
   upAsync env g s tg = (g\<lparr>previousTransition := None\<rparr>, s, [], Inr None)"
proof -
  assume tp: "transitionP s = None" and nc: "\<not> contains env s tg"
  then have nm: "\<not> matches env (stack_top s) tg" using matches_top_contains by blast
  have "recurse env tg (g\<lparr>previousTransition := None\<rparr>) s 0 = (g\<lparr>previousTransition := None\<rparr>, s, [], Inr None)"
    using nm nc by (subst recurse.simps) simp
  with tp show ?thesis
    by (simp add: upAsync_def rejection_def)
qed

section \<open>Facts about the operations\<close>

lemma keep_transitionP: "transitionP s = None \<Longrightarrow> s\<lparr>transitionP := None\<rparr> = s"
  by (cases s) simp

lemma keep_pushP: "pushP s = None \<Longrightarrow> s\<lparr>pushP := None\<rparr> = s"
  by (cases s) simp

lemma processTransition_noop:
  "stack_top s = to \<Longrightarrow>
   processTransition env g s to op =
     (g\<lparr>nextTransitionID := nextTransitionID g + 1,
        previousTransition :=
          Some (Transition (''T'' @ string_of_nat (nextTransitionID g)) (stackId s) op to
                  (stack_top s) (previousTransition g))\<rparr>,
      if op = Pop then s\<lparr>topIndex := topIndex s - 1\<rparr> else s,
      [],
      Inr (Transition (''T'' @ string_of_nat (nextTransitionID g)) (stackId s) op to
             (stack_top s) (previousTransition g)))"
  by (simp add: processTransition_def newTransition_def transitionBody_def Let_def)

lemma upAsync_at_target:
  assumes "transitionP s = None" and "stack_top s = Some a"
  shows "upAsync env g s (ByInstance a) = (g\<lparr>previousTransition := None\<rparr>, s, [], Inr (Some a))"
proof -
  have "recurse env (ByInstance a) (g\<lparr>previousTransition := None\<rparr>) s 0 =
          (g\<lparr>previousTransition := None\<rparr>, s, [], Inr (Some a))"
    using assms(2) by (subst recurse.simps) (simp add: matches_def)
  with assms(1) show ?thesis
    by (simp add: upAsync_def rejection_def keep_transitionP)
qed

lemma upToHubOrRoot_idle:
  assumes "transitionP s = None" and "popTransientTarget env s = None"
    and "hubOrRootTarget env s a = None \<or> hubOrRootTarget env s a = stack_top s"
  shows "\<exists>g1. upToHubOrRoot env g s a = (g1, s, [], None)
            \<and> nextTransitionID g1 = nextTransitionID g"
proof (cases "hubOrRootTarget env s a")
  case None
  with assms show ?thesis by (simp add: upToHubOrRoot_def)
next
  case (Some q)
  with assms(3) have top: "stack_top s = Some q" by simp
  from upAsync_at_target[OF assms(1) top] Some assms(1,2) show ?thesis
    by (simp add: upToHubOrRoot_def rejection_def)
qed

lemma set_length_subset: "set (set_length n xs) \<subseteq> insert None (set xs)"
  by (auto simp: set_length_def dest: in_set_takeD)

lemma truncateStack_historyIds:
  "truncateStack env s t = (s', evs, err) \<Longrightarrow> historyIds s' = historyIds s"
proof (induction env s t arbitrary: s' evs err rule: truncateStack.induct)
  case (1 env s t)
  show ?case
  proof (cases "int (length (stack s)) > topIndex s + 1 \<and> stack s \<noteq> []")
    case False
    with "1.prems" show ?thesis
      by (subst (asm) truncateStack.simps) (auto split: if_splits)
  next
    case True
    obtain s1 evs1 err1 where r: "truncateStack env (s\<lparr>stack := butlast (stack s)\<rparr>) t = (s1, evs1, err1)"
      by (cases "truncateStack env (s\<lparr>stack := butlast (stack s)\<rparr>) t") auto
    from "1.IH"[OF _ _ r] True have "historyIds s1 = historyIds s" by simp
    moreover from "1.prems" True r have "s' = s1"
      by (subst (asm) truncateStack.simps) auto
    ultimately show ?thesis by simp
  qed
qed

lemma pushCommit_history_ids:
  assumes "pushCommit env g s t a = (g', s', evs, err)" and "Some [] \<notin> set (historyIds s)"
  shows "Some [] \<notin> set (historyIds s')"
proof (cases "int (length (stack s)) > topIndex s + 1 \<and> slot (stack s) (topIndex s + 1) = Some a")
  case True
  with assms show ?thesis by (auto simp: pushCommit_def)
next
  case False
  obtain s1 evs1 err1 where r: "truncateStack env s t = (s1, evs1, err1)"
    by (cases "truncateStack env s t") auto
  note h = truncateStack_historyIds[OF r]
  have m: "mintHistoryId g \<noteq> []"
    by (simp add: mintHistoryId_def string_of_nat_nonempty)
  show ?thesis
  proof (cases err1)
    case (Some e)
    with assms False r h show ?thesis by (auto simp: pushCommit_def)
  next
    case None
    with assms(1) False r have
      "historyIds s' = (set_length (Suc (length (stack s1))) (historyIds s1))
                         [length (stack s1) := Some (mintHistoryId g)]"
      by (auto simp: pushCommit_def)
    moreover have "set ((set_length (Suc (length (stack s1))) (historyIds s1))
                         [length (stack s1) := Some (mintHistoryId g)])
        \<subseteq> insert (Some (mintHistoryId g)) (insert None (set (historyIds s1)))"
      using set_update_subset_insert set_length_subset by fastforce
    ultimately show ?thesis using m h assms(2) by auto
  qed
qed

lemma processTransition_history_ids:
  assumes "processTransition env g s to op = (g', s', evs, r)" and "Some [] \<notin> set (historyIds s)"
  shows "Some [] \<notin> set (historyIds s')"
proof -
  have c: "\<And>g1 t g2 s2 evs2 err. commitOp env g1 s t = (g2, s2, evs2, err) \<Longrightarrow>
      Some [] \<notin> set (historyIds s2)"
    using assms(2)
    by (auto simp: commitOp_def split: operation.splits option.splits
             dest!: pushCommit_history_ids)
  from assms show ?thesis
    by (auto simp: processTransition_def newTransition_def transitionBody_def Let_def
             split: if_splits option.splits prod.splits dest: c)
qed

lemma contains_from_instance:
  "contains_from env st (ByInstance a) n \<Longrightarrow> a \<in> set st"
  by (induction n) (auto simp: matches_def slot_def split: if_splits)

lemma contains_instance: "contains env s (ByInstance a) \<Longrightarrow> a \<in> set (stack s)"
  unfolding contains_def by (rule contains_from_instance)

lemma stack_top_in_set: "stack_top s = Some a \<Longrightarrow> a \<in> set (stack s)"
  by (auto simp: stack_top_def slot_def split: if_splits)

lemma truncateStack_none: "int (length (stack s)) \<le> topIndex s + 1 \<Longrightarrow> truncateStack env s t = (s, [], None)"
  by (subst truncateStack.simps) simp

lemma push_fresh:
  fixes env g s a
  defines "t \<equiv> Transition (''T'' @ string_of_nat (nextTransitionID g)) (stackId s) Push (Some a)
                  (stack_top s) (previousTransition g)"
  assumes full: "int (length (stack s)) = topIndex s + 1"
    and fresh: "a \<notin> set (stack s)"
    and quiet: "\<forall>l b u. handlers env l b u = None"
  shows "processTransition env g s (Some a) Push =
     (g\<lparr>nextHistoryId := nextHistoryId g + 1, nextTransitionID := nextTransitionID g + 1,
        previousTransition := Some t\<rparr>,
      s\<lparr>stack := stack s @ [a], topIndex := topIndex s + 1,
        historyIds := (set_length (Suc (length (stack s))) (historyIds s))
                        [length (stack s) := Some (mintHistoryId g)]\<rparr>,
      (case stack_top s of None \<Rightarrow> [] | Some b \<Rightarrow> [Lifecycle Suspending b t])
        @ [Lifecycle Starting a t, TransitionSignal t,
           StackMutated (stack s @ [a]) (topIndex s + 1)
             ((set_length (Suc (length (stack s))) (historyIds s))
                [length (stack s) := Some (mintHistoryId g)]),
           TransitionSync t, Lifecycle Started a t, Lifecycle Resumed a t]
        @ (case stack_top s of None \<Rightarrow> [] | Some b \<Rightarrow> [Lifecycle Suspended b t]),
      Inr t)"
proof -
  have nt: "stack_top s \<noteq> Some a"
    using fresh stack_top_in_set by blast
  have nc: "\<not> contains env s (ByInstance a)"
    using fresh contains_instance by blast
  have sl: "slot (stack s) (topIndex s + 1) = None"
    using full by (simp add: slot_def)
  have tr: "\<And>u. truncateStack env s u = (s, [], None)"
    using full by (simp add: truncateStack_none)
  have pc: "\<And>g1 u. pushCommit env g1 s u a =
      (g1\<lparr>nextHistoryId := nextHistoryId g1 + 1\<rparr>,
       s\<lparr>stack := stack s @ [a], topIndex := int (length (stack s)),
         historyIds := (set_length (Suc (length (stack s))) (historyIds s))
                        [length (stack s) := Some (mintHistoryId g1)]\<rparr>,
       [], None)"
    using sl tr by (simp add: pushCommit_def)
  have mh: "\<And>x y. mintHistoryId (g\<lparr>nextTransitionID := x, previousTransition := y\<rparr>) = mintHistoryId g"
    by (simp add: mintHistoryId_def)
  show ?thesis
    using nt nc quiet full
    by (cases "stack_top s")
       (simp_all add: processTransition_def newTransition_def transitionBody_def commitOp_def
          pc mh t_def Let_def)
qed

lemma contains_empty: "topIndex s < 0 \<Longrightarrow> \<not> contains env s tg"
  by (simp add: contains_def)

lemma upToHubOrRoot_empty:
  assumes "topIndex s < 0" and "transitionP s = None"
  shows "\<exists>g1. upToHubOrRoot env g s a = (g1, s, [], None)
            \<and> g1\<lparr>previousTransition := None\<rparr> = g\<lparr>previousTransition := None\<rparr>"
proof -
  have top: "stack_top s = None" using assms(1) by (simp add: stack_top_def)
  then have ptt: "popTransientTarget env s = None" by (simp add: popTransientTarget_def)
  show ?thesis
  proof (cases "hubOrRootTarget env s a")
    case None
    with ptt assms(2) show ?thesis by (simp add: upToHubOrRoot_def)
  next
    case (Some q)
    have "upAsync env g s (ByInstance q) = (g\<lparr>previousTransition := None\<rparr>, s, [], Inr None)"
      by (rule upAsync_absent[OF assms(2) contains_empty[OF assms(1)]])
    with Some ptt assms(2) show ?thesis
      by (simp add: upToHubOrRoot_def rejection_def)
  qed
qed

lemma set_length_one: "(set_length (Suc 0) xs)[0 := v] = [v]"
  by (cases xs) (simp_all add: set_length_def)

lemma truncateStack_error:
  "truncateStack env s t = (s', evs, Some e) \<Longrightarrow> topIndex s' < int (length (stack s'))"
proof (induction env s t arbitrary: s' evs rule: truncateStack.induct)
  case (1 env s t)
  show ?case
  proof (cases "int (length (stack s)) > topIndex s + 1")
    case False
    with "1.prems" show ?thesis
      by (subst (asm) truncateStack.simps) simp
  next
    case True
    show ?thesis
    proof (cases "stack s = []")
      case e: True
      with True "1.prems" have "s' = s"
        by (subst (asm) truncateStack.simps) simp
      with True e show ?thesis by simp
    next
      case ne: False
      obtain s1 evs1 err1 where
        r: "truncateStack env (s\<lparr>stack := butlast (stack s)\<rparr>) t = (s1, evs1, err1)"
        by (cases "truncateStack env (s\<lparr>stack := butlast (stack s)\<rparr>) t") auto
      from "1.prems" True ne r have "s' = s1" "err1 = Some e"
        by (subst (asm) truncateStack.simps, simp)+
      with "1.IH"[OF True ne] r show ?thesis by simp
    qed
  qed
qed

lemma pushCommit_topIndex_in_array:
  assumes "pushCommit env g s t a = (g', s', evs, err)"
  shows "topIndex s' < int (length (stack s'))"
proof (cases "int (length (stack s)) > topIndex s + 1 \<and> slot (stack s) (topIndex s + 1) = Some a")
  case True
  with assms show ?thesis by (auto simp: pushCommit_def)
next
  case False
  obtain s1 evs1 err1 where r: "truncateStack env s t = (s1, evs1, err1)"
    by (cases "truncateStack env s t") auto
  show ?thesis
  proof (cases err1)
    case None
    with assms False r show ?thesis by (auto simp: pushCommit_def)
  next
    case (Some e)
    with assms False r have "s' = s1" by (auto simp: pushCommit_def)
    with truncateStack_error[OF r[unfolded Some]] show ?thesis by simp
  qed
qed

lemma processTransition_topIndex_in_array:
  assumes "processTransition env g s to op = (g', s', evs, r)"
    and "topIndex s < int (length (stack s))"
  shows "topIndex s' < int (length (stack s'))"
proof -
  have c: "\<And>g1 t g2 s2 evs2 err. commitOp env g1 s t = (g2, s2, evs2, err) \<Longrightarrow>
      topIndex s2 < int (length (stack s2))"
    using assms(2)
    by (auto simp: commitOp_def split: operation.splits option.splits
             dest!: pushCommit_topIndex_in_array)
  from assms show ?thesis
    by (auto simp: processTransition_def newTransition_def transitionBody_def Let_def
             split: if_splits option.splits prod.splits dest: c)
qed

lemma popTransientTarget_pair:
  assumes "stack s = X # Y # fwd" and "topIndex s = 1"
  shows "popTransientTarget env s = None \<or> popTransientTarget env s = Some X"
proof -
  have top: "stack_top s = Some Y"
    using assms by (simp add: stack_top_def slot_def)
  have c0: "cursorPastTransient env (X # Y # fwd) 0 = None
            \<or> cursorPastTransient env (X # Y # fwd) 0 = Some X"
    by (subst cursorPastTransient.simps, subst (2) cursorPastTransient.simps)
       (simp add: clampIdx_def slot_def cursorPastTransient.simps[of _ _ "- 1"])
  have c1: "cursorPastTransient env (X # Y # fwd) 1 =
      (if isTransient (options (heap env Y)) then cursorPastTransient env (X # Y # fwd) 0 else Some Y)"
    by (subst cursorPastTransient.simps) (simp add: clampIdx_def slot_def)
  show ?thesis
    using top assms c0 c1 by (auto simp: popTransientTarget_def)
qed

lemma upToHubOrRoot_pair:
  assumes region: "stack s = X # Y # fwd" "topIndex s = 1"
    and live: "transitionP s = None"
    and nowalk: "popTransientTarget env s \<noteq> Some X" "hubOrRootTarget env s a \<noteq> Some X"
  shows "\<exists>g1. upToHubOrRoot env g s a = (g1, s, [], None)
            \<and> g1\<lparr>previousTransition := None\<rparr> = g\<lparr>previousTransition := None\<rparr>"
proof -
  have ptt: "popTransientTarget env s = None"
    using popTransientTarget_pair[OF region, of env] nowalk(1) by blast
  have top: "stack_top s = Some Y"
    using region by (simp add: stack_top_def slot_def)
  show ?thesis
  proof (cases "hubOrRootTarget env s a")
    case None
    with ptt live show ?thesis by (simp add: upToHubOrRoot_def)
  next
    case (Some q)
    with nowalk(2) have qx: "q \<noteq> X" by simp
    have "upAsync env g s (ByInstance q) = (g\<lparr>previousTransition := None\<rparr>, s, [], Inr (stack_top s))
          \<or> upAsync env g s (ByInstance q) = (g\<lparr>previousTransition := None\<rparr>, s, [], Inr None)"
    proof (cases "q = Y")
      case True
      with upAsync_at_target[OF live top, of env g] top show ?thesis by simp
    next
      case False
      with qx region have "\<not> contains env s (ByInstance q)"
        by (simp add: contains_def matches_def slot_def numeral_2_eq_2)
      from upAsync_absent[OF live this] show ?thesis by simp
    qed
    with Some ptt live show ?thesis
      by (auto simp: upToHubOrRoot_def rejection_def)
  qed
qed

lemma processTransition_Pop_result:
  "processTransition env g s to Pop = (g1, s1, evs, r) \<Longrightarrow>
   (case r of
      Inr t \<Rightarrow> s1 = s\<lparr>topIndex := topIndex s - 1\<rparr>
    | Inl e \<Rightarrow> s1 = s \<and> (\<exists>l a t. handlers env l a t = Some e))"
  by (auto simp: processTransition_def newTransition_def transitionBody_def commitOp_def Let_def
           split: option.splits if_splits sum.splits)

lemma contains_after_pop:
  assumes nm: "\<not> matches env (stack_top s) tg" and c: "contains env s tg"
  shows "contains env (s\<lparr>topIndex := topIndex s - 1\<rparr>) tg"
proof -
  from c have ti: "0 \<le> topIndex s"
    by (cases "0 \<le> topIndex s") (auto simp: contains_def)
  then have n: "nat (topIndex s + 1) = Suc (nat (topIndex s))" by simp
  from ti have st: "stack_top s = slot (stack s) (int (nat (topIndex s)))"
    by (simp add: stack_top_def)
  from c nm have "contains_from env (stack s) tg (nat (topIndex s))"
    unfolding contains_def n st by simp
  then show ?thesis by (simp add: contains_def)
qed


lemma recurse_walk:
  "recurse env tg g s count = (g', s', evs, r) \<Longrightarrow> count \<le> 1000 \<Longrightarrow>
   topIndex s' \<le> topIndex s \<and> topIndex s - topIndex s' \<le> 1000 - int count
   \<and> (matches env (stack_top s') tg \<longrightarrow> r = Inr (stack_top s'))
   \<and> (\<not> matches env (stack_top s') tg \<longrightarrow>
        (r = Inr None
         \<and> (\<not> contains env s tg \<or> topIndex s - topIndex s' = 1000 - int count))
        \<or> (\<exists>e l a t. r = Inl e \<and> handlers env l a t = Some e
              \<and> topIndex s - topIndex s' < 1000 - int count))"
proof (induction env tg g s count arbitrary: g' s' evs r rule: recurse.induct)
  case (1 env tg g s count)
  show ?case
  proof (cases "matches env (stack_top s) tg")
    case True
    then have "recurse env tg g s count = (g, s, [], Inr (stack_top s))"
      by (subst recurse.simps) simp
    with "1.prems" have "g' = g" "s' = s" "r = Inr (stack_top s)" by auto
    with True "1.prems"(2) show ?thesis by simp
  next
    case nm: False
    show ?thesis
    proof (cases "count < 1000 \<and> contains env s tg")
      case False
      with nm have "recurse env tg g s count = (g, s, [], Inr None)"
        by (subst recurse.simps) auto
      with "1.prems" have eq: "g' = g" "s' = s" "r = Inr None" by auto
      from False "1.prems"(2) have "\<not> contains env s tg \<or> count = 1000" by auto
      with eq nm "1.prems"(2) show ?thesis by auto
    next
      case True
      obtain g1 s1 evs1 r1 where
        p: "processTransition env g s (slot (stack s) (topIndex s - 1)) Pop = (g1, s1, evs1, r1)"
        by (cases "processTransition env g s (slot (stack s) (topIndex s - 1)) Pop") auto
      note p1 = processTransition_Pop_result[OF p]
      show ?thesis
      proof (cases r1)
        case (Inl e)
        with nm True p have "recurse env tg g s count = (g1, s1, evs1, Inl e)"
          by (subst recurse.simps) simp
        with "1.prems" have eq: "s' = s1" "r = Inl e" by auto
        from p1 Inl have s1: "s1 = s" and h: "\<exists>l a t. handlers env l a t = Some e" by simp_all
        from True have lt: "(0::int) < 1000 - int count" by simp
        from nm have a: "\<not> matches env (stack_top s') tg" unfolding eq s1 .
        from h lt have b: "\<exists>e' l a t. r = Inl e' \<and> handlers env l a t = Some e'
              \<and> topIndex s - topIndex s' < 1000 - int count"
          unfolding eq s1 by auto
        from lt have c: "topIndex s' \<le> topIndex s \<and> topIndex s - topIndex s' \<le> 1000 - int count"
          unfolding eq s1 by simp
        from a b c show ?thesis by blast
      next
        case (Inr t)
        obtain g2 s2 evs2 r2 where q: "recurse env tg g1 s1 (Suc count) = (g2, s2, evs2, r2)"
          by (cases "recurse env tg g1 s1 (Suc count)") auto
        from nm True p Inr q have "recurse env tg g s count = (g2, s2, evs1 @ evs2, r2)"
          by (subst recurse.simps) simp
        with "1.prems" have eq: "g' = g2" "s' = s2" "r = r2" by auto
        from True have c: "Suc count \<le> 1000" by simp
        from p1 Inr have s1: "s1 = s\<lparr>topIndex := topIndex s - 1\<rparr>" by simp
        then have ti: "topIndex s1 = topIndex s - 1" by simp
        from True nm have c1: "contains env s1 tg" unfolding s1 by (simp add: contains_after_pop)
        have ih: "topIndex s2 \<le> topIndex s1 \<and> topIndex s1 - topIndex s2 \<le> 1000 - int (Suc count)
           \<and> (matches env (stack_top s2) tg \<longrightarrow> r2 = Inr (stack_top s2))
           \<and> (\<not> matches env (stack_top s2) tg \<longrightarrow>
                (r2 = Inr None
                 \<and> (\<not> contains env s1 tg
                    \<or> topIndex s1 - topIndex s2 = 1000 - int (Suc count)))
                \<or> (\<exists>e l a t. r2 = Inl e \<and> handlers env l a t = Some e
                      \<and> topIndex s1 - topIndex s2 < 1000 - int (Suc count)))"
          by (rule "1.IH"[OF nm True p[symmetric] refl refl Inr q c])
        then have i1: "topIndex s2 \<le> topIndex s1"
          and i2: "topIndex s1 - topIndex s2 \<le> 1000 - int (Suc count)"
          and a: "matches env (stack_top s2) tg \<longrightarrow> r2 = Inr (stack_top s2)"
          and b: "\<not> matches env (stack_top s2) tg \<longrightarrow>
                (r2 = Inr None
                 \<and> (\<not> contains env s1 tg
                    \<or> topIndex s1 - topIndex s2 = 1000 - int (Suc count)))
                \<or> (\<exists>e l a t. r2 = Inl e \<and> handlers env l a t = Some e
                      \<and> topIndex s1 - topIndex s2 < 1000 - int (Suc count))"
          by blast+
        from i1 i2 ti have j: "topIndex s2 \<le> topIndex s \<and> topIndex s - topIndex s2 \<le> 1000 - int count"
          by simp
        have e1: "topIndex s1 - topIndex s2 = 1000 - int (Suc count)
            \<longleftrightarrow> topIndex s - topIndex s2 = 1000 - int count"
          using ti by auto
        have e2: "topIndex s1 - topIndex s2 < 1000 - int (Suc count)
            \<longleftrightarrow> topIndex s - topIndex s2 < 1000 - int count"
          using ti by auto
        from b c1 have b': "\<not> matches env (stack_top s2) tg \<longrightarrow>
                (r2 = Inr None \<and> topIndex s - topIndex s2 = 1000 - int count)
                \<or> (\<exists>e l a t. r2 = Inl e \<and> handlers env l a t = Some e
                      \<and> topIndex s - topIndex s2 < 1000 - int count)"
          unfolding e1 e2 by blast
        from j a b' show ?thesis unfolding eq by blast
      qed
    qed
  qed
qed

lemma pushAsync_foreground_idle:
  fixes env g s a
  defines "p \<equiv> Transition (''T'' @ string_of_nat (nextTransitionID g)) (stackId s) Push (Some a)
                  (Some a) None"
  assumes top: "stack_top s = Some a" and pp: "pushP s = None" and tp: "transitionP s = None"
    and ptt: "popTransientTarget env s = None"
    and hub: "hubOrRootTarget env s a = None \<or> hubOrRootTarget env s a = Some a"
    and np: "nextParent env s False a = None"
  shows "pushAsync env g s a =
              Some (g\<lparr>nextTransitionID := nextTransitionID g + 1, previousTransition := Some p\<rparr>,
                    s, [], Inr (Some p))"
proof -
  have pre: "upToHubOrRoot env g s a = (g\<lparr>previousTransition := previousTransition g\<rparr>, s, [], None)
      \<or> upToHubOrRoot env g s a = (g\<lparr>previousTransition := None\<rparr>, s, [], None)"
  proof (cases "hubOrRootTarget env s a")
    case None
    with tp ptt show ?thesis by (simp add: upToHubOrRoot_def)
  next
    case (Some q)
    with hub have "q = a" by simp
    with Some upAsync_at_target[OF tp top, of env g] tp ptt show ?thesis
      by (simp add: upToHubOrRoot_def rejection_def)
  qed
  have fp: "findParents env s a False = Some [a]"
    using np by (simp add: findParents_def findParents_loop.simps)
  have rc: "\<And>g1. runChain env g1 s Push [a] =
      (g1\<lparr>nextTransitionID := nextTransitionID g1 + 1,
          previousTransition := Some (Transition (''T'' @ string_of_nat (nextTransitionID g1))
              (stackId s) Push (Some a) (Some a) (previousTransition g1))\<rparr>,
       s, [],
       Inr (Some (Transition (''T'' @ string_of_nat (nextTransitionID g1))
              (stackId s) Push (Some a) (Some a) (previousTransition g1))))"
    using top by (simp add: processTransition_noop)
  from pre show ?thesis
    using pp tp fp rc
    by (auto simp: pushAsync_def rejection_def p_def keep_transitionP keep_pushP)
qed

section \<open>The claims\<close>

text \<open>
  Claim C1. A transition whose target \<open>new\<close> is not the foreground \<open>old\<close> of a non-empty
  stack, and which no awaited handler rejects, emits in this order: \<open>Suspending\<close> on
  \<open>old\<close>; \<open>Starting\<close> on \<open>new\<close>, or \<open>Resuming\<close> when \<open>new\<close> is already in the active region;
  the \<open>Transition\<close> signal; the mutation of the stack (during which the dropped forward
  history is sent \<open>Deactivated\<close>); the synchronous \<open>TransitionSync\<close> signal, which sees the
  mutated stack; \<open>Started\<close> unless resuming; \<open>Resumed\<close> on \<open>new\<close>; \<open>Suspended\<close> on \<open>old\<close>. The
  promise resolves with the transition. A push of a net-new activity is the case
  \<open>op = Push\<close> with \<open>new\<close> outside the active region.
\<close>

theorem transition_emission_order:
  fixes env g s new op
  defines "t \<equiv> Transition (''T'' @ string_of_nat (nextTransitionID g)) (stackId s) op (Some new)
                  (stack_top s) (previousTransition g)"
  defines "resuming \<equiv> contains env s (ByInstance new)"
  assumes top: "stack_top s = Some old"
    and neq: "old \<noteq> new"
    and susp: "handlers env Suspending old t = None"
    and enter: "handlers env (if resuming then Resuming else Starting) new t = None"
  shows "\<exists>g' s' ds.
     processTransition env g s (Some new) op =
       (g', s',
        [Lifecycle Suspending old t,
         Lifecycle (if resuming then Resuming else Starting) new t,
         TransitionSignal t]
        @ map (\<lambda>a. Lifecycle Deactivated a t) ds
        @ [StackMutated (stack s') (topIndex s') (historyIds s'), TransitionSync t]
        @ (if resuming then [] else [Lifecycle Started new t])
        @ [Lifecycle Resumed new t, Lifecycle Suspended old t],
        Inr t)"
proof -
  define g1 where "g1 = g\<lparr>nextTransitionID := nextTransitionID g + 1, previousTransition := Some t\<rparr>"
  have nt: "newTransition g s (Some new) op = (t, g1)"
    by (simp add: newTransition_def t_def g1_def Let_def)
  have tto: "t_to t = Some new" by (simp add: t_def)
  from commitOp_ok[OF stack_top_Some_topIndex[OF top] tto, of env g1]
  obtain g' s' ds where c: "commitOp env g1 s t = (g', s', map (\<lambda>a. Lifecycle Deactivated a t) ds, None)"
    by blast
  show ?thesis
    using top neq susp enter c nt tto
    by (intro exI[of _ g'] exI[of _ s'] exI[of _ ds])
       (simp add: processTransition_def transitionBody_def resuming_def)
qed

theorem transition_emission_order_witness:
  "stack_top ((newActivityStack 0)\<lparr>stack := [1], topIndex := 0, historyIds := [Some ''_A000000'']\<rparr>) = Some 1
   \<and> (1::nat) \<noteq> 2
   \<and> \<not> contains (quietEnv (\<lambda>a. bareActivity))
         ((newActivityStack 0)\<lparr>stack := [1], topIndex := 0, historyIds := [Some ''_A000000'']\<rparr>)
         (ByInstance 2)
   \<and> processTransition (quietEnv (\<lambda>a. bareActivity))
         ((initialGlobals ''_A00000'')\<lparr>nextHistoryId := 1, nextTransitionID := 1\<rparr>)
         ((newActivityStack 0)\<lparr>stack := [1], topIndex := 0, historyIds := [Some ''_A000000'']\<rparr>)
         (Some 2) Push =
       ((initialGlobals ''_A00000'')\<lparr>nextHistoryId := 2, nextTransitionID := 2,
          previousTransition := Some (Transition ''T1'' 0 Push (Some 2) (Some 1) None)\<rparr>,
        (newActivityStack 0)\<lparr>stack := [1, 2], topIndex := 1,
          historyIds := [Some ''_A000000'', Some ''_A000001'']\<rparr>,
        [Lifecycle Suspending 1 (Transition ''T1'' 0 Push (Some 2) (Some 1) None),
         Lifecycle Starting 2 (Transition ''T1'' 0 Push (Some 2) (Some 1) None),
         TransitionSignal (Transition ''T1'' 0 Push (Some 2) (Some 1) None),
         StackMutated [1, 2] 1 [Some ''_A000000'', Some ''_A000001''],
         TransitionSync (Transition ''T1'' 0 Push (Some 2) (Some 1) None),
         Lifecycle Started 2 (Transition ''T1'' 0 Push (Some 2) (Some 1) None),
         Lifecycle Resumed 2 (Transition ''T1'' 0 Push (Some 2) (Some 1) None),
         Lifecycle Suspended 1 (Transition ''T1'' 0 Push (Some 2) (Some 1) None)],
        Inr (Transition ''T1'' 0 Push (Some 2) (Some 1) None))"
  using transition_emission_order[where
      s = "(newActivityStack 0)\<lparr>stack := [1], topIndex := 0, historyIds := [Some ''_A000000'']\<rparr>"
      and old = 1 and new = 2 and env = "quietEnv (\<lambda>a. bareActivity)"
      and g = "(initialGlobals ''_A00000'')\<lparr>nextHistoryId := 1, nextTransitionID := 1\<rparr>"
      and op = Push]
  by (simp add: engine_defs sample_defs truncateStack.simps string_of_nat.simps digit_char_def
        Let_def)

text \<open>
  Claim C2. When the handlers of \<open>Suspending\<close>, or after them those of \<open>Resuming\<close> or
  \<open>Starting\<close>, reject with \<open>e\<close>, the promise of the step rejects with \<open>e\<close> and the stack
  record is the one the step started from: array, \<open>topIndex\<close> and history ids are
  unchanged. When the step is one of a chain (the transitions of one \<open>pushAsync\<close> or
  \<open>replaceAsync\<close>), the chain ends rejected in the state the steps before it had
  committed, their emissions included: nothing is rolled back.
\<close>

theorem handler_rejection_leaves_stack:
  fixes env g s to op e
  defines "t \<equiv> fst (newTransition g s to op)"
  defines "suspense \<equiv> (case stack_top s of None \<Rightarrow> None | Some a \<Rightarrow> handlers env Suspending a t)"
  defines "entering \<equiv> (case to of None \<Rightarrow> None
      | Some b \<Rightarrow> handlers env (if contains env s (ByInstance b) then Resuming else Starting) b t)"
  assumes differs: "stack_top s \<noteq> to"
    and rejects: "suspense = Some e \<or> (suspense = None \<and> entering = Some e)"
  shows "(\<exists>evs. processTransition env g s to op = (snd (newTransition g s to op), s, evs, Inl e))
       \<and> (\<forall>g0 s0 op0 xs evs0 r y ys.
             runChain env g0 s0 op0 xs = (g, s, evs0, Inr r)
               \<and> to = Some y \<and> op = (if xs = [] then op0 else Push) \<longrightarrow>
             (\<exists>evs. runChain env g0 s0 op0 (xs @ y # ys) =
                      (snd (newTransition g s to op), s, evs0 @ evs, Inl e)))"
proof -
  from processTransition_rejected[OF differs, where env = env and e = e and g = g and op = op] rejects
  obtain evs where step: "processTransition env g s to op = (snd (newTransition g s to op), s, evs, Inl e)"
    unfolding t_def suspense_def entering_def by blast
  have "\<exists>evs'. runChain env g0 s0 op0 (xs @ y # ys) =
                  (snd (newTransition g s to op), s, evs0 @ evs', Inl e)"
    if "runChain env g0 s0 op0 xs = (g, s, evs0, Inr r)" and "to = Some y"
      and "op = (if xs = [] then op0 else Push)"
    for g0 s0 op0 xs evs0 r y ys
    using runChain_step[OF that(1), of y "snd (newTransition g s to op)" s evs e ys] step that(2,3)
    by auto
  with step show ?thesis by blast
qed

theorem handler_rejection_leaves_stack_witness:
  "stack_top ((newActivityStack 0)\<lparr>stack := [1], topIndex := 0, historyIds := [Some ''_A000000'']\<rparr>) \<noteq> Some 2
   \<and> handlers (vetoEnv (\<lambda>a. bareActivity) Starting 2) Starting 2
         (Transition ''T1'' 0 Push (Some 2) (Some 1) (Some (Transition ''T0'' 0 Push (Some 1) None None)))
       = Some (Rejected ''veto'')
   \<and> processTransition (vetoEnv (\<lambda>a. bareActivity) Starting 2)
         ((initialGlobals ''_A00000'')\<lparr>nextHistoryId := 1, nextTransitionID := 1,
            previousTransition := Some (Transition ''T0'' 0 Push (Some 1) None None)\<rparr>)
         ((newActivityStack 0)\<lparr>stack := [1], topIndex := 0, historyIds := [Some ''_A000000'']\<rparr>)
         (Some 2) Push =
       ((initialGlobals ''_A00000'')\<lparr>nextHistoryId := 1, nextTransitionID := 2,
            previousTransition := Some (Transition ''T1'' 0 Push (Some 2) (Some 1)
              (Some (Transition ''T0'' 0 Push (Some 1) None None)))\<rparr>,
        (newActivityStack 0)\<lparr>stack := [1], topIndex := 0, historyIds := [Some ''_A000000'']\<rparr>,
        [Lifecycle Suspending 1 (Transition ''T1'' 0 Push (Some 2) (Some 1)
              (Some (Transition ''T0'' 0 Push (Some 1) None None))),
         Lifecycle Starting 2 (Transition ''T1'' 0 Push (Some 2) (Some 1)
              (Some (Transition ''T0'' 0 Push (Some 1) None None)))],
        Inl (Rejected ''veto''))
   \<and> (case runChain (vetoEnv (\<lambda>a. bareActivity) Starting 2) (initialGlobals ''_A00000'')
              (newActivityStack 0) Push [1, 2, 3] of
         (g', s', evs, r) \<Rightarrow>
           s' = (newActivityStack 0)\<lparr>stack := [1], topIndex := 0, historyIds := [Some ''_A000000'']\<rparr>
           \<and> r = Inl (Rejected ''veto''))"
  using handler_rejection_leaves_stack[where env = "vetoEnv (\<lambda>a. bareActivity) Starting 2"
      and g = "(initialGlobals ''_A00000'')\<lparr>nextHistoryId := 1, nextTransitionID := 1,
            previousTransition := Some (Transition ''T0'' 0 Push (Some 1) None None)\<rparr>"
      and s = "(newActivityStack 0)\<lparr>stack := [1], topIndex := 0, historyIds := [Some ''_A000000'']\<rparr>"
      and to = "Some 2" and op = Push and e = "Rejected ''veto''"]
  by (simp add: engine_defs sample_defs truncateStack.simps string_of_nat.simps digit_char_def)

text \<open>
  Claim C3, as amended. Let \<open>C\<close> declare the parent \<open>B\<close> and \<open>B\<close> the parent \<open>A\<close>, both as
  instances, and \<open>A\<close> none. On an empty stack that keeps no forward history (the array is
  empty), whose promise chains are not rejected, and when no awaited handler rejects,
  \<open>pushAsync C\<close> commits three \<open>Push\<close> transitions, for \<open>A\<close>, \<open>B\<close> and \<open>C\<close> in this order, each
  from the activity pushed before and with \<open>previous\<close> the transition before; it ends
  with the array \<open>[A, B, C]\<close>, \<open>topIndex = 2\<close> and three freshly minted history ids.
\<close>

theorem pushAsync_pushes_ancestors:
  fixes env g s A B C
  defines "t0 \<equiv> Transition (''T'' @ string_of_nat (nextTransitionID g)) (stackId s) Push
                   (Some A) None None"
  defines "t1 \<equiv> Transition (''T'' @ string_of_nat (nextTransitionID g + 1)) (stackId s) Push
                   (Some B) (Some A) (Some t0)"
  defines "t2 \<equiv> Transition (''T'' @ string_of_nat (nextTransitionID g + 2)) (stackId s) Push
                   (Some C) (Some B) (Some t1)"
  defines "h0 \<equiv> Some (historyIdBase g @ string_of_nat (nextHistoryId g))"
  defines "h1 \<equiv> Some (historyIdBase g @ string_of_nat (nextHistoryId g + 1))"
  defines "h2 \<equiv> Some (historyIdBase g @ string_of_nat (nextHistoryId g + 2))"
  assumes empty: "stack s = []" "topIndex s = - 1"
    and live: "pushP s = None" "transitionP s = None"
    and pC: "parentActivity (options (heap env C)) = Some (ParentInstance B)"
    and pB: "parentActivity (options (heap env B)) = Some (ParentInstance A)"
    and pA: "parentActivity (options (heap env A)) = None"
    and quiet: "\<forall>l a t. handlers env l a t = None"
  shows "pushAsync env g s C =
     Some (g\<lparr>nextHistoryId := nextHistoryId g + 3, nextTransitionID := nextTransitionID g + 3,
              previousTransition := Some t2\<rparr>,
           s\<lparr>stack := [A, B, C], topIndex := 2, historyIds := [h0, h1, h2]\<rparr>,
           [Lifecycle Starting A t0, TransitionSignal t0, StackMutated [A] 0 [h0],
            TransitionSync t0, Lifecycle Started A t0, Lifecycle Resumed A t0,
            Lifecycle Suspending A t1, Lifecycle Starting B t1, TransitionSignal t1,
            StackMutated [A, B] 1 [h0, h1], TransitionSync t1, Lifecycle Started B t1,
            Lifecycle Resumed B t1, Lifecycle Suspended A t1,
            Lifecycle Suspending B t2, Lifecycle Starting C t2, TransitionSignal t2,
            StackMutated [A, B, C] 2 [h0, h1, h2], TransitionSync t2, Lifecycle Started C t2,
            Lifecycle Resumed C t2, Lifecycle Suspended B t2],
           Inr (Some t2))"
proof -
  have ne: "A \<noteq> B" "B \<noteq> C" "A \<noteq> C"
    using pA pB pC by auto
  define g0 where "g0 = g\<lparr>previousTransition := None\<rparr>"
  define s1 where "s1 = s\<lparr>stack := [A], topIndex := 0, historyIds := [h0]\<rparr>"
  define g1 where "g1 = g\<lparr>nextHistoryId := nextHistoryId g + 1,
      nextTransitionID := nextTransitionID g + 1, previousTransition := Some t0\<rparr>"
  define s2 where "s2 = s\<lparr>stack := [A, B], topIndex := 1, historyIds := [h0, h1]\<rparr>"
  define g2 where "g2 = g\<lparr>nextHistoryId := nextHistoryId g + 2,
      nextTransitionID := nextTransitionID g + 2, previousTransition := Some t1\<rparr>"
  define s3 where "s3 = s\<lparr>stack := [A, B, C], topIndex := 2, historyIds := [h0, h1, h2]\<rparr>"
  define g3 where "g3 = g\<lparr>nextHistoryId := nextHistoryId g + 3,
      nextTransitionID := nextTransitionID g + 3, previousTransition := Some t2\<rparr>"
  have neg: "topIndex s < 0" using empty by simp
  from upToHubOrRoot_empty[OF neg live(2), where env = env and g = g and a = C]
  obtain gp where pre: "upToHubOrRoot env g s C = (gp, s, [], None)"
    and gp: "gp\<lparr>previousTransition := None\<rparr> = g0"
    unfolding g0_def by blast
  have nc: "\<And>x. \<not> contains env s (ByInstance x)"
    using neg by (rule contains_empty)
  have fp: "findParents env s C False = Some [A, B, C]"
    using pA pB pC nc
    by (simp add: findParents_def findParents_loop.simps nextParent_def)
  have step1: "processTransition env g0 s (Some A) Push =
      (g1, s1,
       [Lifecycle Starting A t0, TransitionSignal t0, StackMutated [A] 0 [h0],
        TransitionSync t0, Lifecycle Started A t0, Lifecycle Resumed A t0],
       Inr t0)"
    using push_fresh[where env = env and g = g0 and s = s and a = A] empty quiet
    by (simp add: g0_def g1_def s1_def t0_def h0_def stack_top_def mintHistoryId_def
          set_length_one)
  have step2: "processTransition env g1 s1 (Some B) Push =
      (g2, s2,
       [Lifecycle Suspending A t1, Lifecycle Starting B t1, TransitionSignal t1,
        StackMutated [A, B] 1 [h0, h1], TransitionSync t1, Lifecycle Started B t1,
        Lifecycle Resumed B t1, Lifecycle Suspended A t1],
       Inr t1)"
    using push_fresh[where env = env and g = g1 and s = s1 and a = B] ne quiet
    by (simp add: g1_def g2_def s1_def s2_def t1_def h1_def stack_top_def slot_def
          mintHistoryId_def set_length_def)
  have step3: "processTransition env g2 s2 (Some C) Push =
      (g3, s3,
       [Lifecycle Suspending B t2, Lifecycle Starting C t2, TransitionSignal t2,
        StackMutated [A, B, C] 2 [h0, h1, h2], TransitionSync t2, Lifecycle Started C t2,
        Lifecycle Resumed C t2, Lifecycle Suspended B t2],
       Inr t2)"
    using push_fresh[where env = env and g = g2 and s = s2 and a = C] ne quiet
    by (simp add: g2_def g3_def s2_def s3_def t2_def h2_def stack_top_def slot_def
          mintHistoryId_def set_length_def)
  have chain: "runChain env g0 s Push [A, B, C] =
      (g3, s3,
       [Lifecycle Starting A t0, TransitionSignal t0, StackMutated [A] 0 [h0],
        TransitionSync t0, Lifecycle Started A t0, Lifecycle Resumed A t0,
        Lifecycle Suspending A t1, Lifecycle Starting B t1, TransitionSignal t1,
        StackMutated [A, B] 1 [h0, h1], TransitionSync t1, Lifecycle Started B t1,
        Lifecycle Resumed B t1, Lifecycle Suspended A t1,
        Lifecycle Suspending B t2, Lifecycle Starting C t2, TransitionSignal t2,
        StackMutated [A, B, C] 2 [h0, h1, h2], TransitionSync t2, Lifecycle Started C t2,
        Lifecycle Resumed C t2, Lifecycle Suspended B t2],
       Inr (Some t2))"
    by (simp add: step1 step2 step3)
  have fin: "s3\<lparr>transitionP := None, pushP := None\<rparr> =
      s\<lparr>stack := [A, B, C], topIndex := 2, historyIds := [h0, h1, h2]\<rparr>"
    using live by (cases s) (simp add: s3_def)
  show ?thesis
    using live pre gp fp chain fin
    by (simp add: pushAsync_def rejection_def g3_def)
qed

theorem pushAsync_pushes_ancestors_witness:
  "stack (sampleStack [] (- 1)) = [] \<and> topIndex (sampleStack [] (- 1)) = - 1
   \<and> pushP (sampleStack [] (- 1)) = None \<and> transitionP (sampleStack [] (- 1)) = None
   \<and> parentActivity (options (heap (quietEnv chainHeap) 3)) = Some (ParentInstance 2)
   \<and> parentActivity (options (heap (quietEnv chainHeap) 2)) = Some (ParentInstance 1)
   \<and> parentActivity (options (heap (quietEnv chainHeap) 1)) = None
   \<and> (case pushAsync (quietEnv chainHeap) (sampleGlobals 0 0) (sampleStack [] (- 1)) 3 of
         None \<Rightarrow> False
       | Some (g', s', evs, r) \<Rightarrow>
           s' = sampleStack [1, 2, 3] 2
           \<and> nextTransitionID g' = 3
           \<and> [t. TransitionSignal t \<leftarrow> evs] =
               [Transition ''T0'' 0 Push (Some 1) None None,
                Transition ''T1'' 0 Push (Some 2) (Some 1)
                  (Some (Transition ''T0'' 0 Push (Some 1) None None)),
                Transition ''T2'' 0 Push (Some 3) (Some 2)
                  (Some (Transition ''T1'' 0 Push (Some 2) (Some 1)
                    (Some (Transition ''T0'' 0 Push (Some 1) None None))))]
           \<and> r = Inr (Some (Transition ''T2'' 0 Push (Some 3) (Some 2)
                   (Some (Transition ''T1'' 0 Push (Some 2) (Some 1)
                     (Some (Transition ''T0'' 0 Push (Some 1) None None)))))))"
proof -
  have sample: ?thesis by code_simp
  with pushAsync_pushes_ancestors[where env = "quietEnv chainHeap"
      and g = "sampleGlobals 0 0" and s = "sampleStack [] (- 1)"
      and A = 1 and B = 2 and C = 3]
  show ?thesis by simp
qed

text \<open>
  The claim as stated fails in three ways. With \<open>topIndex = -1\<close> and the popped entries
  \<open>[1, 2, 3, 4]\<close> still in the array, the three pushes only move \<open>topIndex\<close> back up and
  the history ids keep their length 4. When the \<open>Starting\<close> handlers of \<open>B\<close> reject, only
  \<open>A\<close> is committed. After a rejected operation the chains stay rejected and a later
  \<open>pushAsync\<close> commits nothing.
\<close>

theorem pushAsync_ancestors_counterexample:
  "topIndex (sampleStack [1, 2, 3, 4] (- 1)) = - 1
   \<and> (case pushAsync (quietEnv chainHeap) (sampleGlobals 4 8) (sampleStack [1, 2, 3, 4] (- 1)) 3 of
         None \<Rightarrow> False
       | Some (g', s', evs, r) \<Rightarrow>
           s' = sampleStack [1, 2, 3, 4] 2 \<and> length (historyIds s') = 4
           \<and> nextTransitionID g' = 11
           \<and> r = Inr (Some (Transition ''T10'' 0 Push (Some 3) (Some 2)
                   (Some (Transition ''T9'' 0 Push (Some 2) (Some 1)
                     (Some (Transition ''T8'' 0 Push (Some 1) None None)))))))
   \<and> (case pushAsync (vetoEnv chainHeap Starting 2) (sampleGlobals 0 0) (sampleStack [] (- 1)) 3 of
         None \<Rightarrow> False
       | Some (g', s', evs, r) \<Rightarrow>
           stack s' = [1] \<and> topIndex s' = 0 \<and> historyIds s' = [Some ''_A000000'']
           \<and> nextTransitionID g' = 2 \<and> r = Inl (Rejected ''veto''))
   \<and> (case pushAsync (vetoEnv chainHeap Starting 9) (sampleGlobals 0 0) (sampleStack [] (- 1)) 9 of
         None \<Rightarrow> False
       | Some (g1, s1, evs1, r1) \<Rightarrow>
           r1 = Inl (Rejected ''veto'') \<and> stack s1 = [] \<and> topIndex s1 = - 1
           \<and> pushAsync (vetoEnv chainHeap Starting 9) g1 s1 3 =
               Some (g1, s1, [], Inl (Rejected ''veto'')))"
  by code_simp

text \<open>
  Claim C4, as amended. \<open>upAsync\<close> is a total function: it returns for every stack and
  target; it calls \<open>_processTransition\<close> at most 1000 times (each call takes one
  transition id) and lowers \<open>topIndex\<close> by at most 1000. On a stack whose transition chain
  is not rejected: if the foreground matches the target when the walk ends (by identity,
  or as an instance of the class), the promise resolves with that foreground; if it does
  not, the promise resolves with \<open>undefined\<close>, and then the target was not in the active
  region at the start or all 1000 pops were made, unless the handlers of a lifecycle
  signal rejected one of the pops before the bound was reached, in which case the promise
  rejects with their reason. A foreground that matches at the start is returned at once,
  and a target that is not in the active region gives \<open>undefined\<close> at once, in both cases
  with no transition and no emission. On a stack whose transition chain is rejected,
  \<open>upAsync\<close> rejects with the reason of the chain and changes nothing.
\<close>

theorem upAsync_bounded:
  "(case upAsync env g s tg of
      (g', s', evs, r) \<Rightarrow>
        nextTransitionID g' \<le> nextTransitionID g + 1000
        \<and> topIndex s - 1000 \<le> topIndex s' \<and> topIndex s' \<le> topIndex s
        \<and> (transitionP s = None \<longrightarrow>
             (matches env (stack_top s') tg \<longrightarrow> r = Inr (stack_top s'))
             \<and> (\<not> matches env (stack_top s') tg \<longrightarrow>
                  (r = Inr None
                   \<and> (\<not> contains env s tg \<or> topIndex s' = topIndex s - 1000))
                  \<or> (\<exists>e l a t. r = Inl e \<and> handlers env l a t = Some e
                        \<and> topIndex s - 1000 < topIndex s')))
        \<and> (\<forall>e. transitionP s = Some e \<longrightarrow> g' = g \<and> s' = s \<and> evs = [] \<and> r = Inl e))
   \<and> (transitionP s = None \<and> matches env (stack_top s) tg \<longrightarrow>
        upAsync env g s tg = (g\<lparr>previousTransition := None\<rparr>, s, [], Inr (stack_top s)))
   \<and> (transitionP s = None \<and> \<not> contains env s tg \<longrightarrow>
        upAsync env g s tg = (g\<lparr>previousTransition := None\<rparr>, s, [], Inr None))"
proof (intro conjI impI)
  show "case upAsync env g s tg of
      (g', s', evs, r) \<Rightarrow>
        nextTransitionID g' \<le> nextTransitionID g + 1000
        \<and> topIndex s - 1000 \<le> topIndex s' \<and> topIndex s' \<le> topIndex s
        \<and> (transitionP s = None \<longrightarrow>
             (matches env (stack_top s') tg \<longrightarrow> r = Inr (stack_top s'))
             \<and> (\<not> matches env (stack_top s') tg \<longrightarrow>
                  (r = Inr None
                   \<and> (\<not> contains env s tg \<or> topIndex s' = topIndex s - 1000))
                  \<or> (\<exists>e l a t. r = Inl e \<and> handlers env l a t = Some e
                        \<and> topIndex s - 1000 < topIndex s')))
        \<and> (\<forall>e. transitionP s = Some e \<longrightarrow> g' = g \<and> s' = s \<and> evs = [] \<and> r = Inl e)"
  proof (cases "transitionP s")
    case (Some e)
    then show ?thesis by (simp add: upAsync_def)
  next
    case None
    obtain g1 s1 evs1 r1 where
      rec: "recurse env tg (g\<lparr>previousTransition := None\<rparr>) s 0 = (g1, s1, evs1, r1)"
      by (cases "recurse env tg (g\<lparr>previousTransition := None\<rparr>) s 0") auto
    from recurse_bound[OF rec] have
      bd: "nextTransitionID g1 \<le> nextTransitionID g + 1000"
      by simp
    from recurse_walk[OF rec] have
      w1: "topIndex s - 1000 \<le> topIndex s1" and w2: "topIndex s1 \<le> topIndex s"
      and m: "matches env (stack_top s1) tg \<longrightarrow> r1 = Inr (stack_top s1)"
      and n: "\<not> matches env (stack_top s1) tg \<longrightarrow>
                (r1 = Inr None
                 \<and> (\<not> contains env s tg \<or> topIndex s - topIndex s1 = 1000))
                \<or> (\<exists>e l a t. r1 = Inl e \<and> handlers env l a t = Some e
                      \<and> topIndex s - topIndex s1 < 1000)"
      by simp_all
    have e1: "topIndex s - topIndex s1 = 1000 \<longleftrightarrow> topIndex s1 = topIndex s - 1000" by auto
    have e2: "topIndex s - topIndex s1 < 1000 \<longleftrightarrow> topIndex s - 1000 < topIndex s1" by auto
    have st: "\<And>x. stack_top (s1\<lparr>transitionP := x\<rparr>) = stack_top s1"
      by (simp add: stack_top_def)
    have up: "upAsync env g s tg = (g1, s1\<lparr>transitionP := rejection r1\<rparr>, evs1, r1)"
      using None rec by (simp add: upAsync_def)
    show ?thesis unfolding up using bd w1 w2 m n[unfolded e1 e2] None by (simp add: st)
  qed
next
  assume a: "transitionP s = None \<and> matches env (stack_top s) tg"
  then have "recurse env tg (g\<lparr>previousTransition := None\<rparr>) s 0 =
          (g\<lparr>previousTransition := None\<rparr>, s, [], Inr (stack_top s))"
    by (subst recurse.simps) simp
  with a show "upAsync env g s tg = (g\<lparr>previousTransition := None\<rparr>, s, [], Inr (stack_top s))"
    by (simp add: upAsync_def rejection_def keep_transitionP)
next
  assume "transitionP s = None \<and> \<not> contains env s tg"
  then show "upAsync env g s tg = (g\<lparr>previousTransition := None\<rparr>, s, [], Inr None)"
    using upAsync_absent by blast
qed

theorem upAsync_bounded_witness:
  "transitionP (sampleStack [1, 2, 3] 2) = None
   \<and> (case upAsync (quietEnv (\<lambda>a. bareActivity)) (sampleGlobals 3 3) (sampleStack [1, 2, 3] 2)
              (ByInstance 1) of
        (g', s', evs, r) \<Rightarrow>
          nextTransitionID g' \<le> nextTransitionID (sampleGlobals 3 3) + 1000
          \<and> topIndex (sampleStack [1, 2, 3] 2) - 1000 \<le> topIndex s'
          \<and> matches (quietEnv (\<lambda>a. bareActivity)) (stack_top s') (ByInstance 1)
          \<and> r = Inr (stack_top s'))
   \<and> (case upAsync (vetoEnv (\<lambda>a. bareActivity) Suspending 3) (sampleGlobals 3 3)
              (sampleStack [1, 2, 3] 2) (ByInstance 1) of
        (g', s', evs, r) \<Rightarrow>
          \<not> matches (vetoEnv (\<lambda>a. bareActivity) Suspending 3) (stack_top s') (ByInstance 1)
          \<and> r \<noteq> Inr None
          \<and> (\<exists>e l a t. r = Inl e
                \<and> handlers (vetoEnv (\<lambda>a. bareActivity) Suspending 3) l a t = Some e
                \<and> topIndex (sampleStack [1, 2, 3] 2) - 1000 < topIndex s'))
   \<and> matches (quietEnv (\<lambda>a. bareActivity)) (stack_top (sampleStack [1, 2, 3] 2)) (ByInstance 3)
   \<and> upAsync (quietEnv (\<lambda>a. bareActivity)) (sampleGlobals 3 3) (sampleStack [1, 2, 3] 2)
         (ByInstance 3) =
       ((sampleGlobals 3 3)\<lparr>previousTransition := None\<rparr>, sampleStack [1, 2, 3] 2, [],
        Inr (stack_top (sampleStack [1, 2, 3] 2)))
   \<and> \<not> contains (quietEnv (\<lambda>a. bareActivity)) (sampleStack [1, 2, 3] 2) (ByInstance 9)
   \<and> upAsync (quietEnv (\<lambda>a. bareActivity)) (sampleGlobals 3 3) (sampleStack [1, 2, 3] 2)
         (ByInstance 9) =
       ((sampleGlobals 3 3)\<lparr>previousTransition := None\<rparr>, sampleStack [1, 2, 3] 2, [], Inr None)
   \<and> transitionP ((sampleStack [1, 2, 3] 2)\<lparr>transitionP := Some (Rejected ''veto'')\<rparr>) =
       Some (Rejected ''veto'')
   \<and> (case upAsync (quietEnv (\<lambda>a. bareActivity)) (sampleGlobals 3 3)
              ((sampleStack [1, 2, 3] 2)\<lparr>transitionP := Some (Rejected ''veto'')\<rparr>)
              (ByInstance 3) of
        (g', s', evs, r) \<Rightarrow>
          g' = sampleGlobals 3 3
          \<and> s' = (sampleStack [1, 2, 3] 2)\<lparr>transitionP := Some (Rejected ''veto'')\<rparr>
          \<and> evs = [] \<and> r = Inl (Rejected ''veto''))"
proof -
  define E where "E = quietEnv (\<lambda>a. bareActivity)"
  define V where "V = vetoEnv (\<lambda>a. bareActivity) Suspending 3"
  define G where "G = sampleGlobals 3 3"
  define S where "S = sampleStack [1, 2, 3] 2"
  define R where "R = S\<lparr>transitionP := Some (Rejected ''veto'')\<rparr>"
  have live: "transitionP S = None"
    unfolding S_def by code_simp
  have reached: "case upAsync E G S (ByInstance 1) of
        (g', s', evs, r) \<Rightarrow> matches E (stack_top s') (ByInstance 1)"
    unfolding E_def G_def S_def by code_simp
  have vetoed: "case upAsync V G S (ByInstance 1) of
        (g', s', evs, r) \<Rightarrow> \<not> matches V (stack_top s') (ByInstance 1) \<and> r \<noteq> Inr None"
  proof -
    have nm: "\<not> matches V (stack_top S) (ByInstance 1)"
      unfolding V_def S_def by code_simp
    have c: "contains V S (ByInstance 1)"
      unfolding V_def S_def by code_simp
    have p: "case processTransition V (G\<lparr>previousTransition := None\<rparr>) S
                    (slot (stack S) (topIndex S - 1)) Pop of
               (g1, s1, evs1, r1) \<Rightarrow> s1 = S \<and> r1 = Inl (Rejected ''veto'')"
      unfolding V_def G_def S_def by code_simp
    obtain g1 evs1 where p1: "processTransition V (G\<lparr>previousTransition := None\<rparr>) S
                    (slot (stack S) (topIndex S - 1)) Pop = (g1, S, evs1, Inl (Rejected ''veto''))"
      using p by (cases "processTransition V (G\<lparr>previousTransition := None\<rparr>) S
                    (slot (stack S) (topIndex S - 1)) Pop") auto
    have rec: "recurse V (ByInstance 1) (G\<lparr>previousTransition := None\<rparr>) S 0 =
        (g1, S, evs1, Inl (Rejected ''veto''))"
      using nm c p1 by (subst recurse.simps) simp
    have up: "upAsync V G S (ByInstance 1) =
        (g1, S\<lparr>transitionP := Some (Rejected ''veto'')\<rparr>, evs1, Inl (Rejected ''veto''))"
      using live rec by (simp add: upAsync_def rejection_def)
    have "stack_top (S\<lparr>transitionP := Some (Rejected ''veto'')\<rparr>) = stack_top S"
      by (simp add: stack_top_def)
    with nm show ?thesis unfolding up by simp
  qed
  have top: "matches E (stack_top S) (ByInstance 3)"
    unfolding E_def S_def by code_simp
  have absent: "\<not> contains E S (ByInstance 9)"
    unfolding E_def S_def by code_simp
  have rejected: "transitionP R = Some (Rejected ''veto'')"
    unfolding R_def by simp
  have c1: "case upAsync E G S (ByInstance 1) of
        (g', s', evs, r) \<Rightarrow>
          nextTransitionID g' \<le> nextTransitionID G + 1000
          \<and> topIndex S - 1000 \<le> topIndex s'
          \<and> matches E (stack_top s') (ByInstance 1)
          \<and> r = Inr (stack_top s')"
  proof -
    obtain g' s' evs r where u: "upAsync E G S (ByInstance 1) = (g', s', evs, r)"
      by (cases "upAsync E G S (ByInstance 1)") auto
    from reached have m: "matches E (stack_top s') (ByInstance 1)"
      unfolding u by simp
    from upAsync_bounded[where env = E and g = G and s = S and tg = "ByInstance 1"]
    have "nextTransitionID g' \<le> nextTransitionID G + 1000"
      and "topIndex S - 1000 \<le> topIndex s'"
      and "transitionP S = None \<longrightarrow>
             (matches E (stack_top s') (ByInstance 1) \<longrightarrow> r = Inr (stack_top s'))"
      unfolding u by simp_all
    with live m show ?thesis unfolding u by simp
  qed
  have c2: "case upAsync V G S (ByInstance 1) of
        (g', s', evs, r) \<Rightarrow>
          \<not> matches V (stack_top s') (ByInstance 1)
          \<and> r \<noteq> Inr None
          \<and> (\<exists>e l a t. r = Inl e \<and> handlers V l a t = Some e
                \<and> topIndex S - 1000 < topIndex s')"
  proof -
    obtain g' s' evs r where u: "upAsync V G S (ByInstance 1) = (g', s', evs, r)"
      by (cases "upAsync V G S (ByInstance 1)") auto
    from vetoed have m: "\<not> matches V (stack_top s') (ByInstance 1)" and n: "r \<noteq> Inr None"
      unfolding u by simp_all
    from upAsync_bounded[where env = V and g = G and s = S and tg = "ByInstance 1"]
    have "transitionP S = None \<longrightarrow>
             (\<not> matches V (stack_top s') (ByInstance 1) \<longrightarrow>
                  (r = Inr None
                   \<and> (\<not> contains V S (ByInstance 1) \<or> topIndex s' = topIndex S - 1000))
                  \<or> (\<exists>e l a t. r = Inl e \<and> handlers V l a t = Some e
                        \<and> topIndex S - 1000 < topIndex s'))"
      unfolding u by simp
    with live m n have "\<exists>e l a t. r = Inl e \<and> handlers V l a t = Some e
                \<and> topIndex S - 1000 < topIndex s'"
      by blast
    with m n show ?thesis unfolding u by simp
  qed
  from live top upAsync_bounded[where env = E and g = G and s = S and tg = "ByInstance 3"]
  have c3: "upAsync E G S (ByInstance 3) =
       (G\<lparr>previousTransition := None\<rparr>, S, [], Inr (stack_top S))"
    by blast
  from live absent upAsync_bounded[where env = E and g = G and s = S and tg = "ByInstance 9"]
  have c4: "upAsync E G S (ByInstance 9) = (G\<lparr>previousTransition := None\<rparr>, S, [], Inr None)"
    by blast
  have c5: "case upAsync E G R (ByInstance 3) of
        (g', s', evs, r) \<Rightarrow>
          g' = G \<and> s' = R \<and> evs = [] \<and> r = Inl (Rejected ''veto'')"
  proof -
    obtain g' s' evs r where u: "upAsync E G R (ByInstance 3) = (g', s', evs, r)"
      by (cases "upAsync E G R (ByInstance 3)") auto
    from upAsync_bounded[where env = E and g = G and s = R and tg = "ByInstance 3"]
    have "\<forall>e. transitionP R = Some e \<longrightarrow> g' = G \<and> s' = R \<and> evs = [] \<and> r = Inl e"
      unfolding u by simp
    with rejected show ?thesis unfolding u by simp
  qed
  have "transitionP S = None
   \<and> (case upAsync E G S (ByInstance 1) of
        (g', s', evs, r) \<Rightarrow>
          nextTransitionID g' \<le> nextTransitionID G + 1000
          \<and> topIndex S - 1000 \<le> topIndex s'
          \<and> matches E (stack_top s') (ByInstance 1)
          \<and> r = Inr (stack_top s'))
   \<and> (case upAsync V G S (ByInstance 1) of
        (g', s', evs, r) \<Rightarrow>
          \<not> matches V (stack_top s') (ByInstance 1)
          \<and> r \<noteq> Inr None
          \<and> (\<exists>e l a t. r = Inl e \<and> handlers V l a t = Some e
                \<and> topIndex S - 1000 < topIndex s'))
   \<and> matches E (stack_top S) (ByInstance 3)
   \<and> upAsync E G S (ByInstance 3) = (G\<lparr>previousTransition := None\<rparr>, S, [], Inr (stack_top S))
   \<and> \<not> contains E S (ByInstance 9)
   \<and> upAsync E G S (ByInstance 9) = (G\<lparr>previousTransition := None\<rparr>, S, [], Inr None)
   \<and> transitionP R = Some (Rejected ''veto'')
   \<and> (case upAsync E G R (ByInstance 3) of
        (g', s', evs, r) \<Rightarrow>
          g' = G \<and> s' = R \<and> evs = [] \<and> r = Inl (Rejected ''veto''))"
    by (intro conjI) (rule live c1 c2 top c3 absent c4 rejected c5)+
  then show ?thesis unfolding E_def V_def G_def S_def R_def .
qed

text \<open>
  The claim as stated promises a resolved promise for every stack. A stack whose
  transition chain was rejected by an earlier operation (here a \<open>pushAsync\<close> whose
  \<open>Starting\<close> handlers reject) passes that rejection on: \<open>upAsync\<close> rejects, both for a
  target that is the foreground and for one that is not on the stack.
\<close>

theorem upAsync_rejected_chain_counterexample:
  "(case pushAsync (vetoEnv (\<lambda>a. bareActivity) Starting 2) (sampleGlobals 1 1)
          (sampleStack [1] 0) 2 of
      None \<Rightarrow> False
    | Some (g1, s1, evs1, r1) \<Rightarrow>
        r1 = Inl (Rejected ''veto'') \<and> stack s1 = [1] \<and> topIndex s1 = 0
        \<and> upAsync (vetoEnv (\<lambda>a. bareActivity) Starting 2) g1 s1 (ByInstance 1) =
            (g1, s1, [], Inl (Rejected ''veto''))
        \<and> upAsync (vetoEnv (\<lambda>a. bareActivity) Starting 2) g1 s1 (ByInstance 9) =
            (g1, s1, [], Inl (Rejected ''veto'')))"
  by code_simp

text \<open>
  Claim C5 fails on the code when two stacks interleave. Stack 1 runs \<open>pushAsync 2\<close>,
  where the activity 2 declares the parent 1: the transition \<open>T0\<close> for 1 is created
  (\<open>newTransition\<close>) and its handlers are awaited. Meanwhile stack 2 runs \<open>popAsync\<close>, which
  resets the shared \<open>previousTransition\<close> and creates \<open>T1\<close>. Stack 1 then commits \<open>T0\<close>
  (\<open>transitionBody\<close>) and starts the transition \<open>T2\<close> for 2: its \<open>previous\<close> is \<open>T1\<close>, a
  transition of stack 2, and not \<open>T0\<close>. Run without the interleaved call, the same
  \<open>pushAsync\<close> links its second transition to its first.
\<close>

theorem previous_links_across_stacks:
  "(case newTransition (sampleGlobals 0 0) ((sampleStack [] (- 1))\<lparr>stackId := 1\<rparr>) (Some 1) Push of
      (tA, ga) \<Rightarrow>
        (case popAsync (quietEnv chainHeap) ga ((sampleStack [7, 8] 1)\<lparr>stackId := 2\<rparr>) None of
           (gb, s2, evs2, r2) \<Rightarrow>
             (case transitionBody (quietEnv chainHeap) gb
                     ((sampleStack [] (- 1))\<lparr>stackId := 1\<rparr>) tA of
                (gc, s1, evs1, r1) \<Rightarrow>
                  (case processTransition (quietEnv chainHeap) gc s1 (Some 2) Push of
                     (gd, s1', evs1', r1') \<Rightarrow>
                       tA = Transition ''T0'' 1 Push (Some 1) None None
                       \<and> r2 = Inr (Some (Transition ''T1'' 2 Pop (Some 7) (Some 8) None))
                       \<and> r1 = Inr tA
                       \<and> stack s1' = [1, 2] \<and> topIndex s1' = 1
                       \<and> r1' = Inr (Transition ''T2'' 1 Push (Some 2) (Some 1)
                                 (Some (Transition ''T1'' 2 Pop (Some 7) (Some 8) None)))))))
   \<and> (case pushAsync (quietEnv chainHeap) (sampleGlobals 0 0)
            ((sampleStack [] (- 1))\<lparr>stackId := 1\<rparr>) 2 of
         None \<Rightarrow> False
       | Some (g', s', evs, r) \<Rightarrow>
           r = Inr (Some (Transition ''T1'' 1 Push (Some 2) (Some 1)
                 (Some (Transition ''T0'' 1 Push (Some 1) None None)))))"
  by code_simp

text \<open>
  Claim C6, as amended. Let the active region be \<open>[X, Y]\<close> with \<open>X \<noteq> Y\<close> and \<open>Y\<close> in the
  foreground, on a stack whose promise chains are not rejected. When the preparation
  of \<open>replaceAsync X\<close> does not walk the stack up to \<open>X\<close> (neither \<open>_popTransient\<close>, which
  does so when \<open>Y\<close> is transient and \<open>X\<close> is not, nor \<open>_upToHubOrRoot\<close>, which does so when
  \<open>X\<close> is a root activity or resolves as its own hub parent), and the \<open>Suspending\<close> handlers
  of \<open>Y\<close> and the \<open>Resuming\<close> handlers of \<open>X\<close> do not reject, \<open>replaceAsync X\<close> creates one
  transition, of kind \<open>Pop\<close> from \<open>Y\<close> to \<open>X\<close>, commits it and resolves with it; \<open>topIndex\<close>
  becomes 0, the array and the history ids are unchanged.
\<close>

theorem replaceAsync_directly_below:
  fixes env g s X Y fwd
  defines "t \<equiv> Transition (''T'' @ string_of_nat (nextTransitionID g)) (stackId s) Pop
                  (Some X) (Some Y) None"
  assumes region: "stack s = X # Y # fwd" "topIndex s = 1"
    and distinct: "X \<noteq> Y"
    and live: "pushP s = None" "transitionP s = None"
    and nowalk: "popTransientTarget env s \<noteq> Some X" "hubOrRootTarget env s X \<noteq> Some X"
    and quiet: "handlers env Suspending Y t = None" "handlers env Resuming X t = None"
  shows "replaceAsync env g s X =
     Some (g\<lparr>nextTransitionID := nextTransitionID g + 1, previousTransition := Some t\<rparr>,
           s\<lparr>topIndex := 0\<rparr>,
           [Lifecycle Suspending Y t, Lifecycle Resuming X t, TransitionSignal t,
            StackMutated (stack s) 0 (historyIds s), TransitionSync t,
            Lifecycle Resumed X t, Lifecycle Suspended Y t],
           Inr (Some t))"
proof -
  have top: "stack_top s = Some Y"
    using region by (simp add: stack_top_def slot_def)
  from upToHubOrRoot_pair[OF region live(2) nowalk, of g]
  obtain g1 where pre: "upToHubOrRoot env g s X = (g1, s, [], None)"
    and g1: "g1\<lparr>previousTransition := None\<rparr> = g\<lparr>previousTransition := None\<rparr>"
    by blast
  have below: "slot (stack s) (topIndex s - 1) = Some X"
    using region by (simp add: slot_def)
  have con: "contains env s (ByInstance X)"
    using region by (simp add: contains_def matches_def slot_def numeral_2_eq_2)
  have step: "processTransition env (g\<lparr>previousTransition := None\<rparr>) s (Some X) Pop =
      (g\<lparr>nextTransitionID := nextTransitionID g + 1, previousTransition := Some t\<rparr>,
       s\<lparr>topIndex := 0\<rparr>,
       [Lifecycle Suspending Y t, Lifecycle Resuming X t, TransitionSignal t,
        StackMutated (stack s) 0 (historyIds s), TransitionSync t,
        Lifecycle Resumed X t, Lifecycle Suspended Y t],
       Inr t)"
    using top distinct con quiet region(2)
    by (simp add: processTransition_def newTransition_def transitionBody_def commitOp_def
          t_def Let_def)
  have fin: "s\<lparr>topIndex := 0, transitionP := None, pushP := None\<rparr> = s\<lparr>topIndex := 0\<rparr>"
    using live by (cases s) simp
  show ?thesis
    using live pre g1 below region(2) step fin
    by (simp add: replaceAsync_def rejection_def)
qed

theorem replaceAsync_directly_below_witness:
  "stack (sampleStack [1, 2] 1) = 1 # 2 # [] \<and> topIndex (sampleStack [1, 2] 1) = 1
   \<and> pushP (sampleStack [1, 2] 1) = None \<and> transitionP (sampleStack [1, 2] 1) = None
   \<and> popTransientTarget (quietEnv (\<lambda>a. bareActivity)) (sampleStack [1, 2] 1) \<noteq> Some 1
   \<and> hubOrRootTarget (quietEnv (\<lambda>a. bareActivity)) (sampleStack [1, 2] 1) 1 \<noteq> Some 1
   \<and> replaceAsync (quietEnv (\<lambda>a. bareActivity)) (sampleGlobals 2 2) (sampleStack [1, 2] 1) 1 =
       Some ((sampleGlobals 2 3)\<lparr>previousTransition :=
                Some (Transition ''T2'' 0 Pop (Some 1) (Some 2) None)\<rparr>,
             sampleStack [1, 2] 0,
             [Lifecycle Suspending 2 (Transition ''T2'' 0 Pop (Some 1) (Some 2) None),
              Lifecycle Resuming 1 (Transition ''T2'' 0 Pop (Some 1) (Some 2) None),
              TransitionSignal (Transition ''T2'' 0 Pop (Some 1) (Some 2) None),
              StackMutated [1, 2] 0 [Some ''_A000000'', Some ''_A000001''],
              TransitionSync (Transition ''T2'' 0 Pop (Some 1) (Some 2) None),
              Lifecycle Resumed 1 (Transition ''T2'' 0 Pop (Some 1) (Some 2) None),
              Lifecycle Suspended 2 (Transition ''T2'' 0 Pop (Some 1) (Some 2) None)],
             Inr (Some (Transition ''T2'' 0 Pop (Some 1) (Some 2) None)))"
proof -
  have sample: ?thesis by code_simp
  with replaceAsync_directly_below[where env = "quietEnv (\<lambda>a. bareActivity)"
      and g = "sampleGlobals 2 2" and s = "sampleStack [1, 2] 1"
      and X = 1 and Y = 2 and fwd = "[]"]
  show ?thesis by simp
qed

text \<open>
  The claim as stated fails when the preparation already pops \<open>Y\<close>: with \<open>X\<close> a root
  activity, and with \<open>Y\<close> transient, \<open>upAsync\<close> commits the \<open>Pop\<close> transition \<open>T2\<close>, and the
  replace step then finds \<open>X\<close> in the foreground and resolves with a second transition
  \<open>T3\<close> of kind \<open>Replace\<close>. It also fails when the \<open>Suspending\<close> handlers of \<open>Y\<close> reject
  (nothing is committed) and on a stack whose chains are already rejected.
\<close>

theorem replaceAsync_prestep_counterexample:
  "stack (sampleStack [1, 2] 1) = [1, 2] \<and> stack_top (sampleStack [1, 2] 1) = Some 2
   \<and> replaceAsync
        (quietEnv ((\<lambda>a. bareActivity)
           (1 := bareActivity\<lparr>options := bareOptions\<lparr>isRootActivity := True\<rparr>\<rparr>)))
        (sampleGlobals 2 2) (sampleStack [1, 2] 1) 1 =
       Some ((sampleGlobals 2 4)\<lparr>previousTransition :=
                Some (Transition ''T3'' 0 Replace (Some 1) (Some 1) None)\<rparr>,
             sampleStack [1, 2] 0,
             [Lifecycle Suspending 2 (Transition ''T2'' 0 Pop (Some 1) (Some 2) None),
              Lifecycle Resuming 1 (Transition ''T2'' 0 Pop (Some 1) (Some 2) None),
              TransitionSignal (Transition ''T2'' 0 Pop (Some 1) (Some 2) None),
              StackMutated [1, 2] 0 [Some ''_A000000'', Some ''_A000001''],
              TransitionSync (Transition ''T2'' 0 Pop (Some 1) (Some 2) None),
              Lifecycle Resumed 1 (Transition ''T2'' 0 Pop (Some 1) (Some 2) None),
              Lifecycle Suspended 2 (Transition ''T2'' 0 Pop (Some 1) (Some 2) None)],
             Inr (Some (Transition ''T3'' 0 Replace (Some 1) (Some 1) None)))
   \<and> (case replaceAsync
           (quietEnv ((\<lambda>a. bareActivity)
              (2 := bareActivity\<lparr>options := bareOptions\<lparr>isTransient := True\<rparr>\<rparr>)))
           (sampleGlobals 2 2) (sampleStack [1, 2] 1) 1 of
         None \<Rightarrow> False
       | Some (g', s', evs, r) \<Rightarrow>
           nextTransitionID g' = 4
           \<and> r = Inr (Some (Transition ''T3'' 0 Replace (Some 1) (Some 1) None)))
   \<and> replaceAsync (vetoEnv (\<lambda>a. bareActivity) Suspending 2) (sampleGlobals 2 2)
         (sampleStack [1, 2] 1) 1 =
       Some ((sampleGlobals 2 3)\<lparr>previousTransition :=
                Some (Transition ''T2'' 0 Pop (Some 1) (Some 2) None)\<rparr>,
             (sampleStack [1, 2] 1)\<lparr>transitionP := Some (Rejected ''veto''),
                pushP := Some (Rejected ''veto'')\<rparr>,
             [Lifecycle Suspending 2 (Transition ''T2'' 0 Pop (Some 1) (Some 2) None)],
             Inl (Rejected ''veto''))
   \<and> replaceAsync (quietEnv (\<lambda>a. bareActivity)) (sampleGlobals 2 3)
         ((sampleStack [1, 2] 1)\<lparr>transitionP := Some (Rejected ''veto''),
            pushP := Some (Rejected ''veto'')\<rparr>) 1 =
       Some (sampleGlobals 2 3,
             (sampleStack [1, 2] 1)\<lparr>transitionP := Some (Rejected ''veto''),
                pushP := Some (Rejected ''veto'')\<rparr>,
             [], Inl (Rejected ''veto''))"
  by code_simp

text \<open>
  Claim C7 fails on the code. The short circuit of \<open>_processTransition\<close> itself works as
  the claim says: called with the current foreground as target it resolves with the new
  transition object, emits nothing, and changes nothing but \<open>topIndex\<close>, which it
  decrements when the operation is \<open>Pop\<close>. But \<open>pushAsync a\<close> with \<open>a\<close> in the foreground
  does not always reach that call with \<open>a\<close> still in the foreground, although its doc
  comment says that it "does nothing if given activity was already in the foreground".
  When the foreground 2 declares the hub activity 1 beneath it as its parent,
  \<open>_upToHubOrRoot\<close> pops 2 and the push step enters it again, with all the signals of a
  \<open>Pop\<close> and a \<open>Push\<close> transition; the promise resolves with a \<open>Push\<close> transition from 1 to 2.
  The same happens when the foreground 2 is transient (\<open>_popTransient\<close> walks away from
  it). When the foreground 1 declares a parent 7 that is not on the stack,
  \<open>_findParents\<close> returns 7 and 1, and both are pushed on top: the stack becomes
  \<open>[1, 7, 1]\<close>.
\<close>

theorem pushAsync_foreground_not_noop:
  "processTransition env g s (stack_top s) op =
     (g\<lparr>nextTransitionID := nextTransitionID g + 1,
        previousTransition :=
          Some (Transition (''T'' @ string_of_nat (nextTransitionID g)) (stackId s) op
                  (stack_top s) (stack_top s) (previousTransition g))\<rparr>,
      if op = Pop then s\<lparr>topIndex := topIndex s - 1\<rparr> else s,
      [],
      Inr (Transition (''T'' @ string_of_nat (nextTransitionID g)) (stackId s) op
             (stack_top s) (stack_top s) (previousTransition g)))
   \<and> stack_top (sampleStack [1, 2] 1) = Some 2
   \<and> pushAsync
        (quietEnv ((\<lambda>a. bareActivity)
           (2 := bareActivity\<lparr>options :=
                   bareOptions\<lparr>parentActivity := Some (ParentInstance 1)\<rparr>\<rparr>,
            1 := bareActivity\<lparr>options := bareOptions\<lparr>isHubActivity := True\<rparr>\<rparr>)))
        (sampleGlobals 2 2) (sampleStack [1, 2] 1) 2 =
       Some ((sampleGlobals 2 4)\<lparr>previousTransition :=
                Some (Transition ''T3'' 0 Push (Some 2) (Some 1) None)\<rparr>,
             sampleStack [1, 2] 1,
             [Lifecycle Suspending 2 (Transition ''T2'' 0 Pop (Some 1) (Some 2) None),
              Lifecycle Resuming 1 (Transition ''T2'' 0 Pop (Some 1) (Some 2) None),
              TransitionSignal (Transition ''T2'' 0 Pop (Some 1) (Some 2) None),
              StackMutated [1, 2] 0 [Some ''_A000000'', Some ''_A000001''],
              TransitionSync (Transition ''T2'' 0 Pop (Some 1) (Some 2) None),
              Lifecycle Resumed 1 (Transition ''T2'' 0 Pop (Some 1) (Some 2) None),
              Lifecycle Suspended 2 (Transition ''T2'' 0 Pop (Some 1) (Some 2) None),
              Lifecycle Suspending 1 (Transition ''T3'' 0 Push (Some 2) (Some 1) None),
              Lifecycle Starting 2 (Transition ''T3'' 0 Push (Some 2) (Some 1) None),
              TransitionSignal (Transition ''T3'' 0 Push (Some 2) (Some 1) None),
              StackMutated [1, 2] 1 [Some ''_A000000'', Some ''_A000001''],
              TransitionSync (Transition ''T3'' 0 Push (Some 2) (Some 1) None),
              Lifecycle Started 2 (Transition ''T3'' 0 Push (Some 2) (Some 1) None),
              Lifecycle Resumed 2 (Transition ''T3'' 0 Push (Some 2) (Some 1) None),
              Lifecycle Suspended 1 (Transition ''T3'' 0 Push (Some 2) (Some 1) None)],
             Inr (Some (Transition ''T3'' 0 Push (Some 2) (Some 1) None)))
   \<and> pushAsync
        (quietEnv ((\<lambda>a. bareActivity)
           (2 := bareActivity\<lparr>options := bareOptions\<lparr>isTransient := True\<rparr>\<rparr>)))
        (sampleGlobals 2 2) (sampleStack [1, 2] 1) 2 =
       Some ((sampleGlobals 2 4)\<lparr>previousTransition :=
                Some (Transition ''T3'' 0 Push (Some 2) (Some 1) None)\<rparr>,
             sampleStack [1, 2] 1,
             [Lifecycle Suspending 2 (Transition ''T2'' 0 Pop (Some 1) (Some 2) None),
              Lifecycle Resuming 1 (Transition ''T2'' 0 Pop (Some 1) (Some 2) None),
              TransitionSignal (Transition ''T2'' 0 Pop (Some 1) (Some 2) None),
              StackMutated [1, 2] 0 [Some ''_A000000'', Some ''_A000001''],
              TransitionSync (Transition ''T2'' 0 Pop (Some 1) (Some 2) None),
              Lifecycle Resumed 1 (Transition ''T2'' 0 Pop (Some 1) (Some 2) None),
              Lifecycle Suspended 2 (Transition ''T2'' 0 Pop (Some 1) (Some 2) None),
              Lifecycle Suspending 1 (Transition ''T3'' 0 Push (Some 2) (Some 1) None),
              Lifecycle Starting 2 (Transition ''T3'' 0 Push (Some 2) (Some 1) None),
              TransitionSignal (Transition ''T3'' 0 Push (Some 2) (Some 1) None),
              StackMutated [1, 2] 1 [Some ''_A000000'', Some ''_A000001''],
              TransitionSync (Transition ''T3'' 0 Push (Some 2) (Some 1) None),
              Lifecycle Started 2 (Transition ''T3'' 0 Push (Some 2) (Some 1) None),
              Lifecycle Resumed 2 (Transition ''T3'' 0 Push (Some 2) (Some 1) None),
              Lifecycle Suspended 1 (Transition ''T3'' 0 Push (Some 2) (Some 1) None)],
             Inr (Some (Transition ''T3'' 0 Push (Some 2) (Some 1) None)))
   \<and> stack_top (sampleStack [1] 0) = Some 1
   \<and> (case pushAsync
           (quietEnv ((\<lambda>a. bareActivity)
              (1 := bareActivity\<lparr>options :=
                      bareOptions\<lparr>parentActivity := Some (ParentInstance 7)\<rparr>\<rparr>)))
           (sampleGlobals 1 1) (sampleStack [1] 0) 1 of
         None \<Rightarrow> False
       | Some (g', s', evs, r) \<Rightarrow>
           stack s' = [1, 7, 1] \<and> topIndex s' = 2
           \<and> historyIds s' = [Some ''_A000000'', Some ''_A000001'', Some ''_A000002'']
           \<and> length evs = 15
           \<and> r = Inr (Some (Transition ''T2'' 0 Push (Some 1) (Some 7)
                              (Some (Transition ''T1'' 0 Push (Some 7) (Some 1) None)))))"
proof (intro conjI)
  show "processTransition env g s (stack_top s) op =
     (g\<lparr>nextTransitionID := nextTransitionID g + 1,
        previousTransition :=
          Some (Transition (''T'' @ string_of_nat (nextTransitionID g)) (stackId s) op
                  (stack_top s) (stack_top s) (previousTransition g))\<rparr>,
      if op = Pop then s\<lparr>topIndex := topIndex s - 1\<rparr> else s,
      [],
      Inr (Transition (''T'' @ string_of_nat (nextTransitionID g)) (stackId s) op
             (stack_top s) (stack_top s) (previousTransition g)))"
    by (rule processTransition_noop[OF refl])
qed code_simp+




text \<open>
  Claim C9, as amended. The title accessor returns the title of the nearest activity,
  scanning downward from \<open>topIndex\<close>, whose title is defined (not \<open>undefined\<close>; it may
  be the empty string), and the empty string when no activity at or below \<open>topIndex\<close>
  has a defined title.
\<close>

theorem title_nearest_defined:
  "topIndex s < int (length (stack s)) \<Longrightarrow>
   get_title env s =
     Inr (case List.map_filter (\<lambda>a. title (heap env a))
                 (rev (take (nat (topIndex s + 1)) (stack s))) of
            [] \<Rightarrow> [] | ttl # _ \<Rightarrow> ttl)"
  by (rule get_title_char)

theorem title_nearest_defined_witness:
  "topIndex ((newActivityStack 0)\<lparr>stack := [1, 2], topIndex := 1\<rparr>) < int (length (stack ((newActivityStack 0)\<lparr>stack := [1, 2], topIndex := 1\<rparr>)))
   \<and> get_title (quietEnv ((\<lambda>a. bareActivity)(1 := bareActivity\<lparr>title := Some ''Home''\<rparr>)))
        ((newActivityStack 0)\<lparr>stack := [1, 2], topIndex := 1\<rparr>) = Inr ''Home''"
  using title_nearest_defined[where s = "(newActivityStack 0)\<lparr>stack := [1, 2], topIndex := 1\<rparr>"
      and env = "quietEnv ((\<lambda>a. bareActivity)(1 := bareActivity\<lparr>title := Some ''Home''\<rparr>))"]
  by (simp add: sample_defs List.map_filter_simps)

text \<open>
  The claim as the specification states it asks for the nearest non-empty title. With
  \<open>''Home''\<close> below an activity whose title is the empty string the accessor returns the
  empty string.
\<close>

theorem title_empty_string_counterexample:
  "get_title
     (quietEnv ((\<lambda>a. bareActivity)(1 := bareActivity\<lparr>title := Some ''Home''\<rparr>,
                                     2 := bareActivity\<lparr>title := Some []\<rparr>)))
     ((newActivityStack 0)\<lparr>stack := [1, 2], topIndex := 1\<rparr>) = Inr []
   \<and> title_spec
     (quietEnv ((\<lambda>a. bareActivity)(1 := bareActivity\<lparr>title := Some ''Home''\<rparr>,
                                     2 := bareActivity\<lparr>title := Some []\<rparr>)))
     ((newActivityStack 0)\<lparr>stack := [1, 2], topIndex := 1\<rparr>) = ''Home''
   \<and> get_title
     (quietEnv ((\<lambda>a. bareActivity)(1 := bareActivity\<lparr>title := Some ''Home''\<rparr>,
                                     2 := bareActivity\<lparr>title := Some []\<rparr>)))
     ((newActivityStack 0)\<lparr>stack := [1, 2], topIndex := 1\<rparr>)
     \<noteq> Inr (title_spec
       (quietEnv ((\<lambda>a. bareActivity)(1 := bareActivity\<lparr>title := Some ''Home''\<rparr>,
                                       2 := bareActivity\<lparr>title := Some []\<rparr>)))
       ((newActivityStack 0)\<lparr>stack := [1, 2], topIndex := 1\<rparr>))"
  by (simp add: sample_defs get_title_def title_spec_def slot_def List.map_filter_simps
        numeral_2_eq_2)

text \<open>
  Claim C10. On a stack with \<open>topIndex\<close> inside the array and no empty history id (both
  hold for every stack the engine produces, see \<open>processTransition_topIndex_in_array\<close>
  and \<open>processTransition_history_ids\<close>): \<open>getHistoryAfter\<close> with a non-empty id that is
  not among the history ids returns \<open>undefined\<close>; with the empty string it scans from
  the bottom of the stack and returns the snapshot of the first activity at or below
  \<open>topIndex\<close> that is not a background activity, \<open>undefined\<close> when there is none.
\<close>

theorem getHistoryAfter_unknown_or_empty_id:
  fixes env s hid
  defines "active \<equiv> take (nat (topIndex s + 1)) (stack s)"
  defines "i \<equiv> length (takeWhile (\<lambda>a. isBackgroundActivity (options (heap env a))) active)"
  assumes wf: "topIndex s < int (length (stack s))"
    and ids: "Some [] \<notin> set (historyIds s)"
  shows "(hid \<noteq> [] \<and> Some hid \<notin> set (historyIds s) \<longrightarrow> getHistoryAfter env s hid = Inr None)
       \<and> getHistoryAfter env s [] =
           (if i = length active then Inr None
            else Inr (Some
              \<lparr>snap_title =
                 (case List.map_filter (\<lambda>a. title (heap env a)) (rev (take (Suc i) active)) of
                    ttl # _ \<Rightarrow> ttl
                  | [] \<Rightarrow>
                      (case List.map_filter (\<lambda>a. title (heap env a)) (rev active) of
                         [] \<Rightarrow> [] | ttl # _ \<Rightarrow> ttl)),
               snap_activity = active ! i,
               snap_path = getPath (heap env (active ! i)),
               snap_historyId = (case slot (historyIds s) (int i) of None \<Rightarrow> None | Some h \<Rightarrow> h)\<rparr>))"
proof (intro conjI impI)
  assume "hid \<noteq> [] \<and> Some hid \<notin> set (historyIds s)"
  then show "getHistoryAfter env s hid = Inr None"
    by (simp add: getHistoryAfter_def lastIndexOf_absent)
next
  have idx: "lastIndexOf (historyIds s) (Some []) = - 1"
    using ids by (rule lastIndexOf_absent)
  have ile: "i \<le> length active"
    unfolding i_def by (rule length_takeWhile_le)
  have la: "length active = nat (topIndex s + 1)"
    using wf by (simp add: active_def)
  have skip: "skipBackground env s 0 = Inr (int i)"
  proof (cases "0 \<le> topIndex s + 1")
    case True
    from skipBackground_char[OF _ True wf, where env = env] show ?thesis
      by (simp add: i_def active_def)
  next
    case False
    then have "active = []" by (simp add: active_def)
    with False show ?thesis
      by (subst skipBackground.simps) (simp add: i_def)
  qed
  show "getHistoryAfter env s [] =
           (if i = length active then Inr None
            else Inr (Some
              \<lparr>snap_title =
                 (case List.map_filter (\<lambda>a. title (heap env a)) (rev (take (Suc i) active)) of
                    ttl # _ \<Rightarrow> ttl
                  | [] \<Rightarrow>
                      (case List.map_filter (\<lambda>a. title (heap env a)) (rev active) of
                         [] \<Rightarrow> [] | ttl # _ \<Rightarrow> ttl)),
               snap_activity = active ! i,
               snap_path = getPath (heap env (active ! i)),
               snap_historyId = (case slot (historyIds s) (int i) of None \<Rightarrow> None | Some h \<Rightarrow> h)\<rparr>))"
  proof (cases "i = length active")
    case True
    with la have "int i > topIndex s" by simp
    with True idx skip show ?thesis
      by (simp add: getHistoryAfter_def)
  next
    case False
    with ile have lt: "i < length active" by simp
    with la have le: "int i \<le> topIndex s" and il: "i < length (stack s)"
      using wf by simp_all
    have tk: "take (Suc i) active = take (Suc i) (stack s)"
      using lt la by (simp add: active_def min_def)
    have nth: "active ! i = stack s ! i"
      using lt by (simp add: active_def)
    have sl: "slot (stack s) (int i) = Some (stack s ! i)"
      using il by (simp add: slot_def)
    have tf: "title_from env (stack s) (nat (int i + 1)) =
        Inr (case List.map_filter (\<lambda>a. title (heap env a)) (rev (take (Suc i) (stack s))) of
               [] \<Rightarrow> None | x # _ \<Rightarrow> Some x)"
      using title_from_char[where n = "Suc i" and st = "stack s" and env = env] il by (simp add: nat_add_distrib)
    from False le idx skip sl tf get_title_char[OF wf, where env = env] show ?thesis
      by (simp add: getHistoryAfter_def tk nth active_def split: list.splits)
  qed
qed

theorem getHistoryAfter_unknown_or_empty_id_witness:
  "topIndex ((newActivityStack 0)\<lparr>stack := [1, 2, 3], topIndex := 2,
       historyIds := [Some ''_A000000'', Some ''_A000001'', Some ''_A000002'']\<rparr>) < 3
   \<and> Some [] \<notin> set [Some ''_A000000'', Some ''_A000001'', Some ''_A000002'']
   \<and> Some ''zz'' \<notin> set [Some ''_A000000'', Some ''_A000001'', Some ''_A000002'']
   \<and> getHistoryAfter
        (quietEnv ((\<lambda>a. bareActivity)
           (1 := bareActivity\<lparr>options := bareOptions\<lparr>isBackgroundActivity := True\<rparr>\<rparr>,
            2 := bareActivity\<lparr>title := Some ''Inbox''\<rparr>)))
        ((newActivityStack 0)\<lparr>stack := [1, 2, 3], topIndex := 2,
           historyIds := [Some ''_A000000'', Some ''_A000001'', Some ''_A000002'']\<rparr>) ''zz'' = Inr None
   \<and> getHistoryAfter
        (quietEnv ((\<lambda>a. bareActivity)
           (1 := bareActivity\<lparr>options := bareOptions\<lparr>isBackgroundActivity := True\<rparr>\<rparr>,
            2 := bareActivity\<lparr>title := Some ''Inbox''\<rparr>)))
        ((newActivityStack 0)\<lparr>stack := [1, 2, 3], topIndex := 2,
           historyIds := [Some ''_A000000'', Some ''_A000001'', Some ''_A000002'']\<rparr>) [] =
       Inr (Some \<lparr>snap_title = ''Inbox'', snap_activity = 2, snap_path = None,
                  snap_historyId = Some ''_A000001''\<rparr>)"
  using getHistoryAfter_unknown_or_empty_id[where
      s = "(newActivityStack 0)\<lparr>stack := [1, 2, 3], topIndex := 2,
           historyIds := [Some ''_A000000'', Some ''_A000001'', Some ''_A000002'']\<rparr>"
      and env = "quietEnv ((\<lambda>a. bareActivity)
           (1 := bareActivity\<lparr>options := bareOptions\<lparr>isBackgroundActivity := True\<rparr>\<rparr>,
            2 := bareActivity\<lparr>title := Some ''Inbox''\<rparr>))"
      and hid = "''zz''"]
  by (simp add: sample_defs slot_def List.map_filter_simps numeral_3_eq_3)

end
